theory Spec2Isabelle
  imports Complex_Main "HOL-Library.Multiset"
begin

section \<open>Domain types (src/domain/types.ts)\<close>

text \<open>
  The item store answers with JSON objects of type \<^verbatim>\<open>HNItem\<close>: every field but
  \<^verbatim>\<open>id\<close> is optional, so an optional field is an \<open>option\<close>. JavaScript numbers that
  hold ids, times and counts are integers here. A field name that Isabelle reserves
  (\<^verbatim>\<open>id\<close>, \<^verbatim>\<open>by\<close>, \<^verbatim>\<open>text\<close>, \<^verbatim>\<open>type\<close>) carries the prefix of its record.
\<close>

datatype HNItemType = Job | Story | Comment | Poll | Pollopt

record HNItem =
  item_id :: int
  item_deleted :: "bool option"
  item_type :: "HNItemType option"
  item_by :: "string option"
  item_time :: "int option"
  item_text :: "string option"
  item_dead :: "bool option"
  item_parent :: "int option"
  item_poll :: "int option"
  item_kids :: "int list option"
  item_url :: "string option"
  item_score :: "int option"
  item_title :: "string option"
  item_parts :: "int list option"
  item_descendants :: "int option"

record StoryEntity =
  story_id :: int
  story_title :: string
  story_url :: "string option"
  story_host :: "string option"
  story_by :: string
  story_score :: int
  story_time :: int
  story_commentCount :: int

record CommentEntity =
  comment_id :: int
  comment_by :: string
  comment_time :: int
  comment_textHtml :: string
  comment_parentId :: int
  comment_storyId :: int
  comment_storyTitle :: string
  comment_depth :: nat

record StoryThread =
  thread_story :: StoryEntity
  thread_comments :: "CommentEntity list"

text \<open>
  What the code throws: the two errors of \<^verbatim>\<open>fetchTopStoryIds\<close>, the error of
  \<^verbatim>\<open>getTopStoriesSnapshot\<close> on an empty story list, and the engine's TypeError on a
  property read of \<^verbatim>\<open>undefined\<close>.
\<close>

datatype error = UpstreamError | NotAnArray | EmptyTopStories | TypeError

subsection \<open>JavaScript truthiness and slicing\<close>

text \<open>
  \<^verbatim>\<open>!x\<close> on an optional number is true for \<^verbatim>\<open>undefined\<close> and for 0; on an optional
  string for \<^verbatim>\<open>undefined\<close> and for the empty string; an optional boolean is truthy
  only when it is \<^verbatim>\<open>true\<close>.
\<close>

definition truthyNum :: "int option \<Rightarrow> bool" where
  "truthyNum v = (case v of None \<Rightarrow> False | Some n \<Rightarrow> n \<noteq> 0)"

definition truthyStr :: "string option \<Rightarrow> bool" where
  "truthyStr v = (case v of None \<Rightarrow> False | Some s \<Rightarrow> s \<noteq> [])"

definition truthyBool :: "bool option \<Rightarrow> bool" where
  "truthyBool v = (case v of None \<Rightarrow> False | Some b \<Rightarrow> b)"

text \<open>
  \<^verbatim>\<open>xs.slice(0, n)\<close>: a negative \<^verbatim>\<open>n\<close> counts from the end of the array.
  \<^verbatim>\<open>xs.splice(0, n)\<close> removes and returns the first \<^verbatim>\<open>n\<close> elements, none when
  \<^verbatim>\<open>n\<close> is zero or negative; \<open>spliceHead\<close> is what it returns and \<open>spliceRest\<close>
  what stays in the array.
\<close>

definition slice0 :: "'a list \<Rightarrow> int \<Rightarrow> 'a list" where
  "slice0 xs n = (if 0 \<le> n then take (nat n) xs else take (nat (int (length xs) + n)) xs)"

definition spliceHead :: "int \<Rightarrow> 'a list \<Rightarrow> 'a list" where
  "spliceHead n xs = take (nat n) xs"

definition spliceRest :: "int \<Rightarrow> 'a list \<Rightarrow> 'a list" where
  "spliceRest n xs = drop (nat n) xs"

section \<open>Entity mappers (src/domain/mappers.ts)\<close>

text \<open>
  \<^verbatim>\<open>parseHost\<close> uses the browser's URL parser, which is outside the repository: it is
  a parameter of the model.
\<close>

definition toStoryEntity :: "(string \<Rightarrow> string option) \<Rightarrow> HNItem \<Rightarrow> StoryEntity option" where
  "toStoryEntity parseHost item =
     (if item_type item \<noteq> Some Story \<or> \<not> truthyStr (item_title item)
         \<or> \<not> truthyStr (item_by item) \<or> \<not> truthyNum (item_time item)
      then None
      else Some \<lparr>
        story_id = item_id item,
        story_title = the (item_title item),
        story_url = item_url item,
        story_host = (if truthyStr (item_url item) then parseHost (the (item_url item)) else None),
        story_by = the (item_by item),
        story_score = (case item_score item of Some s \<Rightarrow> s | None \<Rightarrow> 0),
        story_time = the (item_time item),
        story_commentCount =
          (case item_descendants item of
             Some d \<Rightarrow> d
           | None \<Rightarrow> (case item_kids item of Some ks \<Rightarrow> int (length ks) | None \<Rightarrow> 0)) \<rparr>)"

definition toCommentEntity :: "HNItem \<Rightarrow> StoryEntity \<Rightarrow> nat \<Rightarrow> CommentEntity option" where
  "toCommentEntity item story depth =
     (if item_type item \<noteq> Some Comment \<or> truthyBool (item_deleted item)
         \<or> truthyBool (item_dead item) \<or> \<not> truthyStr (item_by item)
         \<or> \<not> truthyNum (item_time item) \<or> \<not> truthyStr (item_text item)
         \<or> \<not> truthyNum (item_parent item)
      then None
      else Some \<lparr>
        comment_id = item_id item,
        comment_by = the (item_by item),
        comment_time = the (item_time item),
        comment_textHtml = the (item_text item),
        comment_parentId = the (item_parent item),
        comment_storyId = story_id story,
        comment_storyTitle = story_title story,
        comment_depth = depth \<rparr>)"

section \<open>Item fetcher (src/api/hnClient.ts)\<close>

text \<open>
  \<^verbatim>\<open>itemPromiseCache\<close> maps an id to the promise of its request. A promise is
  identified by the position of its request in the log of network requests issued so
  far; \<open>settled\<close> records the value a request's promise resolved to (\<open>None\<close> inside
  \<open>Some\<close> is the \<^verbatim>\<open>null\<close> of a non-ok status or of a transport failure, which the
  \<^verbatim>\<open>catch\<close> handler turns into a value too).

  \<^verbatim>\<open>fetchItem\<close> runs to its \<^verbatim>\<open>return\<close> without suspending: reading the cache,
  issuing the request and storing its promise are one step. The answer of the network
  arrives as a step of its own, at any later time.
\<close>

record client =
  itemPromiseCache :: "int \<rightharpoonup> nat"
  requests :: "int list"
  settled :: "nat \<rightharpoonup> HNItem option"

definition client0 :: client where
  "client0 = \<lparr> itemPromiseCache = Map.empty, requests = [], settled = Map.empty \<rparr>"

definition fetchItem :: "int \<Rightarrow> client \<Rightarrow> nat \<times> client" where
  "fetchItem i c =
     (case itemPromiseCache c i of
        Some existing \<Rightarrow> (existing, c)
      | None \<Rightarrow>
          (let request = length (requests c)
           in (request, c\<lparr> requests := requests c @ [i],
                           itemPromiseCache := (itemPromiseCache c)(i \<mapsto> request) \<rparr>)))"

datatype event = Call int | Respond nat "HNItem option"

fun step :: "client \<Rightarrow> event \<Rightarrow> client" where
  "step c (Call i) = snd (fetchItem i c)"
| "step c (Respond h r) =
     (if h < length (requests c) \<and> settled c h = None
      then c\<lparr> settled := (settled c)(h \<mapsto> r) \<rparr> else c)"

definition run :: "client \<Rightarrow> event list \<Rightarrow> client" where
  "run c evs = foldl step c evs"

text \<open>The invariant of the states that calls and answers reach from \<open>client0\<close>.\<close>

definition client_inv :: "client \<Rightarrow> bool" where
  "client_inv c \<longleftrightarrow>
     (\<forall>i h. itemPromiseCache c i = Some h \<longrightarrow> h < length (requests c) \<and> requests c ! h = i)
     \<and> (\<forall>h < length (requests c). itemPromiseCache c (requests c ! h) = Some h)"

section \<open>Mixer (src/feed/mixer.ts)\<close>

text \<open>
  The generator of \<^verbatim>\<open>seeded\<close> is a closure over one number, \<^verbatim>\<open>state\<close>: the model
  passes that number along. Seeds are integers. \<^verbatim>\<open>%\<close> is JavaScript's remainder, which
  takes the sign of the dividend. The value a draw returns is a JavaScript double; the
  model computes it as a real number.
\<close>

definition jsRem :: "int \<Rightarrow> int \<Rightarrow> int" where
  "jsRem a b = sgn a * (\<bar>a\<bar> mod \<bar>b\<bar>)"

definition seeded :: "int \<Rightarrow> int" where
  "seeded seed =
     (let state = jsRem seed 2147483647
      in if state \<le> 0 then state + 2147483646 else state)"

definition randomNext :: "int \<Rightarrow> real \<times> int" where
  "randomNext state =
     (let state' = jsRem (state * 16807) 2147483647
      in ((real_of_int state' - 1) / 2147483646, state'))"

text \<open>
  A JavaScript array as \<^verbatim>\<open>shuffle\<close> can see it: the elements at the indices
  \<open>0 .. length - 1\<close>, and the properties a write at a negative index creates on the
  array object (they are not elements and do not count for \<^verbatim>\<open>length\<close>). A read of a
  slot that was never written yields \<^verbatim>\<open>undefined\<close>, which is \<open>None\<close>.
\<close>

type_synonym 'a jsArray = "'a option list \<times> (int \<Rightarrow> 'a option)"

definition arrGet :: "'a jsArray \<Rightarrow> int \<Rightarrow> 'a option" where
  "arrGet arr j =
     (if 0 \<le> j then (if nat j < length (fst arr) then fst arr ! nat j else None)
      else snd arr j)"

definition arrSet :: "'a jsArray \<Rightarrow> int \<Rightarrow> 'a option \<Rightarrow> 'a jsArray" where
  "arrSet arr j v =
     (if 0 \<le> j then
        (if nat j < length (fst arr) then ((fst arr)[nat j := v], snd arr)
         else (fst arr @ replicate (nat j - length (fst arr)) None @ [v], snd arr))
      else (fst arr, (snd arr)(j := v)))"

text \<open>
  The loop of \<^verbatim>\<open>shuffle\<close> runs \<^verbatim>\<open>i\<close> from \<^verbatim>\<open>length - 1\<close> down to 1. The swap
  \<^verbatim>\<open>[arr[i], arr[j]] = [arr[j], arr[i]]\<close> reads both slots, then writes \<^verbatim>\<open>arr[i]\<close>,
  then \<^verbatim>\<open>arr[j]\<close>.
\<close>

fun shuffleLoop :: "nat \<Rightarrow> 'a jsArray \<times> int \<Rightarrow> 'a jsArray \<times> int" where
  "shuffleLoop 0 (arr, state) = (arr, state)"
| "shuffleLoop (Suc k) (arr, state) =
     (let i = int (Suc k);
          (r, state') = randomNext state;
          j = \<lfloor>r * (real_of_int i + 1)\<rfloor>;
          vj = arrGet arr j;
          vi = arrGet arr i
      in shuffleLoop k (arrSet (arrSet arr i vj) j vi, state'))"

definition shuffle :: "'a list \<Rightarrow> int \<Rightarrow> 'a option list \<times> int" where
  "shuffle values state =
     (let (arr, state') = shuffleLoop (length values - 1) ((map Some values, \<lambda>_. None), state)
      in (fst arr, state'))"

text \<open>A template literal prints an integer in decimal.\<close>

fun showNat :: "nat \<Rightarrow> string" where
  "showNat n =
     (if n < 10 then [''0123456789'' ! n]
      else showNat (n div 10) @ [''0123456789'' ! (n mod 10)])"

declare showNat.simps [simp del]

definition showInt :: "int \<Rightarrow> string" where
  "showInt i = (if i < 0 then ''-'' @ showNat (nat (- i)) else showNat (nat i))"

datatype FeedEntry =
  StoryEntry string StoryEntity
  | CommentEntry string CommentEntity

text \<open>The two object literals that \<^verbatim>\<open>mixFeed\<close> pushes.\<close>

definition storyEntryOf :: "StoryEntity \<Rightarrow> FeedEntry" where
  "storyEntryOf story = StoryEntry (''story-'' @ showInt (story_id story)) story"

definition commentEntryOf :: "CommentEntity \<Rightarrow> FeedEntry" where
  "commentEntryOf comment = CommentEntry (''comment-'' @ showInt (comment_id comment)) comment"

text \<open>
  The loop of \<^verbatim>\<open>mixFeed\<close>. \<^verbatim>\<open>random()\<close> is drawn only when the story pool is not
  empty (\<^verbatim>\<open>&&\<close> evaluates its right operand only then). Reading \<^verbatim>\<open>.id\<close> of a pool
  element that is \<^verbatim>\<open>undefined\<close> throws a TypeError. The last branch is the iteration
  that pushes nothing.
\<close>

function mixLoop ::
  "real \<Rightarrow> StoryEntity option list \<Rightarrow> CommentEntity option list \<Rightarrow> int \<Rightarrow> FeedEntry list
    \<Rightarrow> error + FeedEntry list" where
  "mixLoop storyRatio storyPool commentPool state output =
     (if storyPool = [] \<and> commentPool = [] then Inr output
      else
        (let (pickStory, state') =
               (if storyPool \<noteq> []
                then (let (r, s) = randomNext state in (r < storyRatio \<or> commentPool = [], s))
                else (commentPool = [], state))
         in if pickStory \<and> storyPool \<noteq> [] then
              (case hd storyPool of
                 None \<Rightarrow> Inl TypeError
               | Some story \<Rightarrow>
                   mixLoop storyRatio (tl storyPool) commentPool state'
                     (output @ [storyEntryOf story]))
            else if commentPool \<noteq> [] then
              (case hd commentPool of
                 None \<Rightarrow> Inl TypeError
               | Some comment \<Rightarrow>
                   mixLoop storyRatio storyPool (tl commentPool) state'
                     (output @ [commentEntryOf comment]))
            else mixLoop storyRatio storyPool commentPool state' output))"
  by pat_completeness auto
termination
  by (relation "measure (\<lambda>(storyRatio, storyPool, commentPool, state, output).
        length storyPool + length commentPool)")
     (auto split: prod.splits if_splits)

declare mixLoop.simps [simp del]

definition mixFeed ::
  "StoryEntity list \<Rightarrow> CommentEntity list \<Rightarrow> int \<Rightarrow> real option \<Rightarrow> error + FeedEntry list" where
  "mixFeed stories comments seed storyRatio =
     (let ratio = (case storyRatio of Some r \<Rightarrow> r | None \<Rightarrow> 0.6);
          (storyPool, state1) = shuffle stories (seeded seed);
          (commentPool, state2) = shuffle comments state1
      in mixLoop ratio storyPool commentPool state2 [])"

text \<open>The states of the generator between 1 and 2147483646: the ones it is meant to have.\<close>

definition goodState :: "int \<Rightarrow> bool" where
  "goodState state \<longleftrightarrow> 1 \<le> state \<and> state \<le> 2147483646"

text \<open>The stories and the comments of a feed, each in the order of the feed.\<close>

fun storiesOfFeed :: "FeedEntry list \<Rightarrow> StoryEntity list" where
  "storiesOfFeed [] = []"
| "storiesOfFeed (StoryEntry i story # rest) = story # storiesOfFeed rest"
| "storiesOfFeed (CommentEntry i comment # rest) = storiesOfFeed rest"

fun commentsOfFeed :: "FeedEntry list \<Rightarrow> CommentEntity list" where
  "commentsOfFeed [] = []"
| "commentsOfFeed (StoryEntry i story # rest) = commentsOfFeed rest"
| "commentsOfFeed (CommentEntry i comment # rest) = comment # commentsOfFeed rest"

section \<open>Feed service (src/feed/service.ts)\<close>

subsection \<open>State and environment\<close>

record FeedSnapshot =
  snap_stories :: "StoryEntity list"
  snap_comments :: "CommentEntity list"
  snap_cachedAt :: int

record FeedCommentQueueItem =
  q_storyId :: int
  q_commentId :: int
  q_depth :: nat

record FeedCommentSession =
  fs_storyKey :: string
  fs_storyById :: "int \<rightharpoonup> StoryEntity"
  fs_queue :: "FeedCommentQueueItem list"
  fs_seenCommentIds :: "int set"
  fs_exhausted :: bool

record StoryThreadSession =
  ts_story :: StoryEntity
  ts_queue :: "int list"
  ts_depthById :: "int \<rightharpoonup> nat"
  ts_comments :: "CommentEntity list"
  ts_hasMore :: bool

record StoryThreadPage =
  page_story :: StoryEntity
  page_comments :: "CommentEntity list"
  page_hasMore :: bool

text \<open>
  The module-level variables of the service. \<open>persisted\<close> is the entry of
  \<^verbatim>\<open>localStorage\<close> under \<^verbatim>\<open>FEED_STORAGE_KEY\<close>: the JSON text of a snapshot, held as
  the snapshot it encodes. \<open>topStoriesRequests\<close> counts the requests for the top-id
  list issued so far; the code has no such variable, the model keeps it so that a
  refetch can be observed.
\<close>

record service =
  cache :: "FeedSnapshot option"
  persisted :: "FeedSnapshot option"
  storyRootIdsByStoryId :: "int \<rightharpoonup> int list"
  feedCommentSession :: "FeedCommentSession option"
  threadSessionByStoryId :: "int \<rightharpoonup> StoryThreadSession"
  topStoriesRequests :: nat

text \<open>
  What the service reads from outside. \<open>net i\<close> is the value that awaiting
  \<^verbatim>\<open>fetchItem(i)\<close> yields: the item fetcher issues one request per id and keeps its
  promise for the lifetime of the process, so this value is a function of the id.
  \<open>topStories\<close> is the outcome of \<^verbatim>\<open>fetchTopStoryIds\<close>, which throws on a non-ok
  status and on a payload that is not an array. \<open>storageWritable\<close> tells whether
  \<^verbatim>\<open>localStorage.setItem\<close> succeeds (its failure is caught and ignored).

  Every exported function of the service is \<^verbatim>\<open>async\<close>. The functions of the
  following subsections run a call to its end before the next one starts; a result
  \<open>None\<close> of the outer \<open>option\<close> is a call that never returns. Calls of
  \<^verbatim>\<open>getStoryThreadPage\<close> and \<^verbatim>\<open>getNextFeedCommentBatch\<close> that overlap at an
  \<^verbatim>\<open>await\<close> are modelled in the subsection on overlapping calls.
\<close>

record env =
  net :: "int \<Rightarrow> HNItem option"
  topStories :: "error + int list"
  parseHost :: "string \<Rightarrow> string option"
  storageWritable :: bool

definition MAX_PERSISTED_COMMENTS :: int where
  "MAX_PERSISTED_COMMENTS = 120"

definition kidsOrEmpty :: "HNItem \<Rightarrow> int list" where
  "kidsOrEmpty item = (case item_kids item of Some ks \<Rightarrow> ks | None \<Rightarrow> [])"

subsection \<open>Batch fetcher (src/api/hnClient.ts, fetchItemsConcurrently)\<close>

partial_function (option) fetchItemsLoop ::
  "(int \<Rightarrow> HNItem option) \<Rightarrow> int \<Rightarrow> int list \<Rightarrow> HNItem list \<Rightarrow> HNItem list option" where
  "fetchItemsLoop fetch concurrency queue output =
     (if queue \<noteq> [] then
        fetchItemsLoop fetch concurrency (spliceRest concurrency queue)
          (output @ List.map_filter fetch (spliceHead concurrency queue))
      else Some output)"

declare fetchItemsLoop.simps [code]

definition fetchItemsConcurrently :: "env \<Rightarrow> int list \<Rightarrow> int \<Rightarrow> HNItem list option" where
  "fetchItemsConcurrently e ids concurrency = fetchItemsLoop (net e) concurrency ids []"

subsection \<open>Snapshot cache\<close>

definition shouldUseCache :: "int \<Rightarrow> int \<Rightarrow> service \<Rightarrow> bool" where
  "shouldUseCache now maxAgeMs st =
     (case cache st of
        None \<Rightarrow> False
      | Some c \<Rightarrow> snap_stories c \<noteq> [] \<and> now - snap_cachedAt c < maxAgeMs)"

definition persistSnapshot :: "env \<Rightarrow> FeedSnapshot \<Rightarrow> service \<Rightarrow> service" where
  "persistSnapshot e snapshot st =
     (if storageWritable e then st\<lparr> persisted := Some snapshot \<rparr> else st)"

definition setStoryRoots ::
  "(StoryEntity \<times> HNItem) list \<Rightarrow> (int \<rightharpoonup> int list) \<Rightarrow> (int \<rightharpoonup> int list)" where
  "setStoryRoots storiesWithRaw roots =
     foldl (\<lambda>m (story, raw). m(story_id story \<mapsto> kidsOrEmpty raw)) roots storiesWithRaw"

definition fetchTopStories ::
  "env \<Rightarrow> int \<Rightarrow> service \<Rightarrow> ((error + (StoryEntity \<times> HNItem) list) \<times> service) option" where
  "fetchTopStories e limit st =
     (let st1 = st\<lparr> topStoriesRequests := topStoriesRequests st + 1 \<rparr>
      in case topStories e of
           Inl err \<Rightarrow> Some (Inl err, st1)
         | Inr payload \<Rightarrow>
             (case fetchItemsConcurrently e (slice0 payload limit) 10 of
                None \<Rightarrow> None
              | Some items \<Rightarrow>
                  (let storiesWithRaw =
                         List.map_filter
                           (\<lambda>item. map_option (\<lambda>story. (story, item)) (toStoryEntity (parseHost e) item))
                           items
                   in Some (Inr storiesWithRaw,
                        st1\<lparr> storyRootIdsByStoryId := setStoryRoots storiesWithRaw Map.empty \<rparr>))))"

text \<open>The stories that \<^verbatim>\<open>fetchTopStories\<close> maps from the items of a list of ids.\<close>

definition storiesOf :: "env \<Rightarrow> int list \<Rightarrow> (StoryEntity \<times> HNItem) list" where
  "storiesOf e ids =
     List.map_filter (\<lambda>item. map_option (\<lambda>story. (story, item)) (toStoryEntity (parseHost e) item))
       (List.map_filter (net e) ids)"

record snapshotOptions =
  so_storyLimit :: "int option"
  so_cacheMs :: "int option"
  so_forceRefresh :: "bool option"

text \<open>
  \<^verbatim>\<open>Date.now()\<close> is read twice: \<open>now\<close> is its value in \<^verbatim>\<open>shouldUseCache\<close>, \<open>later\<close>
  its value when the new snapshot is built.
\<close>

definition getTopStoriesSnapshot ::
  "env \<Rightarrow> int \<Rightarrow> int \<Rightarrow> snapshotOptions \<Rightarrow> service \<Rightarrow> ((error + FeedSnapshot) \<times> service) option" where
  "getTopStoriesSnapshot e now later options st =
     (let storyLimit = (case so_storyLimit options of Some n \<Rightarrow> n | None \<Rightarrow> 10);
          cacheMs = (case so_cacheMs options of Some n \<Rightarrow> n | None \<Rightarrow> 120000);
          forceRefresh = (case so_forceRefresh options of Some b \<Rightarrow> b | None \<Rightarrow> False)
      in if \<not> forceRefresh \<and> shouldUseCache now cacheMs st then Some (Inr (the (cache st)), st)
         else
           (case fetchTopStories e storyLimit st of
              None \<Rightarrow> None
            | Some (Inl err, st1) \<Rightarrow> Some (Inl err, st1)
            | Some (Inr storiesWithRaw, st1) \<Rightarrow>
                if storiesWithRaw = [] then Some (Inl EmptyTopStories, st1)
                else
                  (let storyIds = set (map (\<lambda>entry. story_id (fst entry)) storiesWithRaw);
                       reusableComments =
                         (if forceRefresh then []
                          else filter (\<lambda>comment. comment_storyId comment \<in> storyIds)
                                 (case cache st1 of Some c \<Rightarrow> snap_comments c | None \<Rightarrow> []));
                       nextSnapshot = \<lparr>
                         snap_stories = map fst storiesWithRaw,
                         snap_comments = slice0 reusableComments MAX_PERSISTED_COMMENTS,
                         snap_cachedAt = later \<rparr>
                   in Some (Inr nextSnapshot,
                        persistSnapshot e nextSnapshot (st1\<lparr> cache := Some nextSnapshot \<rparr>)))))"

subsection \<open>Cross-story comment session\<close>






text \<open>
  The \<^verbatim>\<open>for\<close> loop of \<^verbatim>\<open>getNextFeedCommentBatch\<close> over one batch of queue entries,
  each paired with the item fetched for it. The \<^verbatim>\<open>break\<close> leaves the loop once
  \<^verbatim>\<open>batchSize\<close> comments are collected; the entries of the batch after that point were
  already removed from the queue by \<^verbatim>\<open>splice\<close>.
\<close>

definition pushFeedKids :: "FeedCommentQueueItem \<Rightarrow> int list \<Rightarrow> FeedCommentSession \<Rightarrow> FeedCommentSession" where
  "pushFeedKids queueEntry kids s =
     s\<lparr> fs_queue := fs_queue s @
          map (\<lambda>kid. \<lparr> q_storyId = q_storyId queueEntry, q_commentId = kid,
                       q_depth = q_depth queueEntry + 1 \<rparr>)
            (filter (\<lambda>kid. kid \<notin> fs_seenCommentIds s) kids) \<rparr>"







subsection \<open>Per-story comment session\<close>

definition createStoryThreadSession :: "env \<Rightarrow> int \<Rightarrow> StoryThreadSession option" where
  "createStoryThreadSession e storyId =
     (case net e storyId of
        None \<Rightarrow> None
      | Some storyItem \<Rightarrow>
          (case toStoryEntity (parseHost e) storyItem of
             None \<Rightarrow> None
           | Some story \<Rightarrow>
               (let rootIds = kidsOrEmpty storyItem
                in Some \<lparr>
                     ts_story = story,
                     ts_queue = rootIds,
                     ts_depthById = foldl (\<lambda>m i. m(i \<mapsto> 0)) Map.empty rootIds,
                     ts_comments = [],
                     ts_hasMore = (rootIds \<noteq> []) \<rparr>)))"

text \<open>
  The inner loop over \<^verbatim>\<open>item.kids\<close>: a kid that has no entry in \<^verbatim>\<open>depthById\<close> gets
  the depth of its parent plus one and joins the queue.
\<close>

fun pushKids :: "nat \<Rightarrow> int list \<Rightarrow> StoryThreadSession \<Rightarrow> StoryThreadSession" where
  "pushKids depth [] s = s"
| "pushKids depth (kid # kids) s =
     pushKids depth kids
       (if ts_depthById s kid = None
        then s\<lparr> ts_depthById := (ts_depthById s)(kid \<mapsto> depth + 1),
                ts_queue := ts_queue s @ [kid] \<rparr>
        else s)"

text \<open>
  The \<^verbatim>\<open>for\<close> loop of \<^verbatim>\<open>getStoryThreadPage\<close> over the items fetched for one batch,
  with the counter \<^verbatim>\<open>added\<close>. As in the cross-story session, the \<^verbatim>\<open>break\<close> leaves
  the loop with the rest of the batch already removed from the queue.
\<close>

fun threadItems ::
  "int \<Rightarrow> HNItem option list \<Rightarrow> StoryThreadSession \<times> int \<Rightarrow> StoryThreadSession \<times> int" where
  "threadItems batchSize [] (s, added) = (s, added)"
| "threadItems batchSize (None # rest) (s, added) = threadItems batchSize rest (s, added)"
| "threadItems batchSize (Some item # rest) (s, added) =
     (let depth = (case ts_depthById s (item_id item) of Some d \<Rightarrow> d | None \<Rightarrow> 0);
          (s1, added1) =
            (case toCommentEntity item (ts_story s) depth of
               Some mapped \<Rightarrow> (s\<lparr> ts_comments := ts_comments s @ [mapped] \<rparr>, added + 1)
             | None \<Rightarrow> (s, added));
          s2 = pushKids depth (kidsOrEmpty item) s1
      in if batchSize \<le> added1 then (s2, added1)
         else threadItems batchSize rest (s2, added1))"

partial_function (option) threadLoop ::
  "(int \<Rightarrow> HNItem option) \<Rightarrow> int \<Rightarrow> int \<Rightarrow> StoryThreadSession \<times> int
    \<Rightarrow> (StoryThreadSession \<times> int) option" where
  "threadLoop fetch batchSize concurrency sa =
     (if ts_queue (fst sa) \<noteq> [] \<and> snd sa < batchSize then
        (let batch = spliceHead concurrency (ts_queue (fst sa));
             s0 = (fst sa)\<lparr> ts_queue := spliceRest concurrency (ts_queue (fst sa)) \<rparr>;
             items = map fetch batch
         in threadLoop fetch batchSize concurrency (threadItems batchSize items (s0, snd sa)))
      else Some sa)"

declare threadLoop.simps [code]

record threadOptions =
  to_batchSize :: "int option"
  to_reset :: "bool option"
  to_concurrency :: "int option"

text \<open>
  The start of \<^verbatim>\<open>getStoryThreadPage\<close>: drop the session on \<^verbatim>\<open>reset\<close>, then take the
  live session of the story or create one. Its end: set \<^verbatim>\<open>hasMore\<close>, return the story,
  a copy of all comments of the session and \<^verbatim>\<open>hasMore\<close>. The session sits in the map
  from its creation on; the loop changes that object in place, so the map holds the
  session as the loop left it.
\<close>

definition dropOnReset :: "int \<Rightarrow> threadOptions \<Rightarrow> service \<Rightarrow> service" where
  "dropOnReset storyId options st =
     (if (case to_reset options of Some b \<Rightarrow> b | None \<Rightarrow> False)
      then st\<lparr> threadSessionByStoryId := (threadSessionByStoryId st)(storyId := None) \<rparr>
      else st)"

definition findSession :: "env \<Rightarrow> int \<Rightarrow> service \<Rightarrow> StoryThreadSession option" where
  "findSession e storyId st =
     (case threadSessionByStoryId st storyId of
        Some session \<Rightarrow> Some session
      | None \<Rightarrow> createStoryThreadSession e storyId)"

definition finishPage :: "int \<Rightarrow> service \<Rightarrow> StoryThreadSession \<Rightarrow> StoryThreadPage option \<times> service" where
  "finishPage storyId st s =
     (let s' = s\<lparr> ts_hasMore := (ts_queue s \<noteq> []) \<rparr>
      in (Some \<lparr> page_story = ts_story s', page_comments = ts_comments s',
                  page_hasMore = ts_hasMore s' \<rparr>,
          st\<lparr> threadSessionByStoryId := (threadSessionByStoryId st)(storyId \<mapsto> s') \<rparr>))"

definition getStoryThreadPage ::
  "env \<Rightarrow> int \<Rightarrow> threadOptions \<Rightarrow> service \<Rightarrow> (StoryThreadPage option \<times> service) option" where
  "getStoryThreadPage e storyId options st =
     (let batchSize = (case to_batchSize options of Some n \<Rightarrow> n | None \<Rightarrow> 20);
          concurrency = (case to_concurrency options of Some n \<Rightarrow> n | None \<Rightarrow> 8);
          st1 = dropOnReset storyId options st
      in case findSession e storyId st1 of
           None \<Rightarrow> Some (None, st1)
         | Some session \<Rightarrow>
             (case threadLoop (net e) batchSize concurrency (session, 0) of
                None \<Rightarrow> None
              | Some sa \<Rightarrow> Some (finishPage storyId st1 (fst sa))))"

text \<open>
  \<^verbatim>\<open>getStoryThread\<close>: a first page with \<^verbatim>\<open>reset\<close>, then pages until the session is
  exhausted or \<^verbatim>\<open>maxComments\<close> comments are loaded.
\<close>

partial_function (option) storyThreadLoop ::
  "env \<Rightarrow> int \<Rightarrow> int \<Rightarrow> StoryThreadPage option \<times> service
    \<Rightarrow> (StoryThreadPage option \<times> service) option" where
  "storyThreadLoop e storyId maxComments ps =
     (case fst ps of
        None \<Rightarrow> Some ps
      | Some page \<Rightarrow>
          if page_hasMore page \<and> int (length (page_comments page)) < maxComments then
            (case getStoryThreadPage e storyId
                    \<lparr> to_batchSize = Some (min 20 (maxComments - int (length (page_comments page)))),
                      to_reset = None, to_concurrency = None \<rparr> (snd ps) of
               None \<Rightarrow> None
             | Some ps' \<Rightarrow> storyThreadLoop e storyId maxComments ps')
          else Some ps)"

declare storyThreadLoop.simps [code]

definition getStoryThread ::
  "env \<Rightarrow> int \<Rightarrow> int option \<Rightarrow> service \<Rightarrow> (StoryThread option \<times> service) option" where
  "getStoryThread e storyId maxCommentsOpt st =
     (let maxComments = (case maxCommentsOpt of Some n \<Rightarrow> n | None \<Rightarrow> 160)
      in case getStoryThreadPage e storyId
                \<lparr> to_batchSize = Some (min maxComments 20), to_reset = Some True,
                  to_concurrency = None \<rparr> st of
           None \<Rightarrow> None
         | Some (None, st1) \<Rightarrow> Some (None, st1)
         | Some (Some page, st1) \<Rightarrow>
             (case storyThreadLoop e storyId maxComments (Some page, st1) of
                None \<Rightarrow> None
              | Some (None, st2) \<Rightarrow> Some (None, st2)
              | Some (Some page', st2) \<Rightarrow>
                  Some (Some \<lparr> thread_story = page_story page',
                               thread_comments = slice0 (page_comments page') maxComments \<rparr>,
                        st2)))"

subsection \<open>Ancestor resolver\<close>

text \<open>
  The \<^verbatim>\<open>while\<close> loop of \<^verbatim>\<open>getCommentContext\<close>, with its variables \<^verbatim>\<open>cursor\<close>,
  \<^verbatim>\<open>guard\<close>, \<^verbatim>\<open>storyId\<close> and \<^verbatim>\<open>parents\<close>; it returns the last two.
\<close>

function walkParents ::
  "(int \<Rightarrow> HNItem option) \<Rightarrow> int option \<Rightarrow> nat \<Rightarrow> HNItem list \<Rightarrow> int option \<times> HNItem list" where
  "walkParents fetch cursor guard parents =
     (if truthyNum cursor \<and> guard < 40 then
        (case fetch (the cursor) of
           None \<Rightarrow> (None, parents)
         | Some parent \<Rightarrow>
             if item_type parent = Some Story then (Some (item_id parent), parents @ [parent])
             else walkParents fetch (item_parent parent) (guard + 1) (parents @ [parent]))
      else (None, parents))"
  by pat_completeness auto
termination
  by (relation "measure (\<lambda>(fetch, cursor, guard, parents). 40 - guard)") auto

declare walkParents.simps [simp del]

record CommentContext =
  ctx_selectedId :: int
  ctx_thread :: StoryThread
  ctx_parents :: "HNItem list"

definition getCommentContext ::
  "env \<Rightarrow> int \<Rightarrow> service \<Rightarrow> (CommentContext option \<times> service) option" where
  "getCommentContext e commentId st =
     (case net e commentId of
        None \<Rightarrow> Some (None, st)
      | Some selected \<Rightarrow>
          if item_type selected \<noteq> Some Comment then Some (None, st)
          else
            (case walkParents (net e) (item_parent selected) 0 [] of
               (storyId, parents) \<Rightarrow>
                 if \<not> truthyNum storyId then Some (None, st)
                 else
                   (case getStoryThread e (the storyId) (Some 220) st of
                      None \<Rightarrow> None
                    | Some (None, st1) \<Rightarrow> Some (None, st1)
                    | Some (Some thread, st1) \<Rightarrow>
                        Some (Some \<lparr> ctx_selectedId = commentId, ctx_thread = thread,
                                     ctx_parents = parents \<rparr>, st1))))"

subsection \<open>Calls that overlap\<close>

















section \<open>Sessions over several calls\<close>

text \<open>
  The lifetime of a session is a sequence of calls, each starting in the state the
  previous one left. \<open>threadCalls\<close> runs \<^verbatim>\<open>getStoryThreadPage\<close> for one story with the
  given options, one call after the other, and collects the pages; \<open>feedCalls\<close> does the
  same for \<^verbatim>\<open>getNextFeedCommentBatch\<close> and collects the batches.
\<close>

fun threadCalls ::
  "env \<Rightarrow> int \<Rightarrow> threadOptions list \<Rightarrow> service \<Rightarrow> (StoryThreadPage option list \<times> service) option" where
  "threadCalls e storyId [] st = Some ([], st)"
| "threadCalls e storyId (options # rest) st =
     (case getStoryThreadPage e storyId options st of
        None \<Rightarrow> None
      | Some (page, st1) \<Rightarrow>
          (case threadCalls e storyId rest st1 of
             None \<Rightarrow> None
           | Some (pages, st2) \<Rightarrow> Some (page # pages, st2)))"


section \<open>Invariants of the traversal sessions\<close>







text \<open>
  \<open>reachDepth fetch roots i d\<close>: the id \<open>i\<close> is found \<open>d\<close> steps below a root, each step
  going from an item of the store to one of its kids. In a comment tree this is the
  depth of \<open>i\<close> under the root it descends from.
\<close>

inductive reachDepth :: "(int \<Rightarrow> HNItem option) \<Rightarrow> int set \<Rightarrow> int \<Rightarrow> nat \<Rightarrow> bool"
  for fetch :: "int \<Rightarrow> HNItem option" and roots :: "int set" where
  root: "i \<in> roots \<Longrightarrow> reachDepth fetch roots i 0"
| kid: "reachDepth fetch roots p d \<Longrightarrow> fetch p = Some item \<Longrightarrow> k \<in> set (kidsOrEmpty item)
        \<Longrightarrow> reachDepth fetch roots k (Suc d)"





section \<open>The ancestor chain as the specification words it\<close>

text \<open>
  The specification of the ancestor resolver: walk the parent links upward, fetch each
  ancestor and append it to the chain, stop at the first ancestor of type story or after
  the given number of hops. \<open>specChain\<close> is that chain; \<open>specOwner\<close> is the id of the
  story it ends in, when it ends in one. They are compared with \<open>walkParents\<close> below.
\<close>

fun specChain :: "(int \<Rightarrow> HNItem option) \<Rightarrow> nat \<Rightarrow> int option \<Rightarrow> HNItem list" where
  "specChain fetch 0 cursor = []"
| "specChain fetch (Suc hops) cursor =
     (if truthyNum cursor then
        (case fetch (the cursor) of
           None \<Rightarrow> []
         | Some parent \<Rightarrow>
             if item_type parent = Some Story then [parent]
             else parent # specChain fetch hops (item_parent parent))
      else [])"

definition specOwner :: "HNItem list \<Rightarrow> int option" where
  "specOwner chain =
     (if chain \<noteq> [] \<and> item_type (last chain) = Some Story then Some (item_id (last chain))
      else None)"

section \<open>Example data\<close>

text \<open>
  Concrete items, stores and states for the closed theorems below: a valid comment
  (\<open>mkComment id parent kids\<close>), a valid story (\<open>mkStory id kids\<close>), a store that holds
  exactly the listed items, and the state of the service at start-up.
\<close>

definition mkComment :: "int \<Rightarrow> int \<Rightarrow> int list \<Rightarrow> HNItem" where
  "mkComment i p ks = \<lparr> item_id = i, item_deleted = None, item_type = Some Comment,
     item_by = Some ''u'', item_time = Some 1, item_text = Some ''x'', item_dead = None,
     item_parent = Some p, item_poll = None, item_kids = (if ks = [] then None else Some ks),
     item_url = None, item_score = None, item_title = None, item_parts = None,
     item_descendants = None \<rparr>"

definition mkStory :: "int \<Rightarrow> int list \<Rightarrow> HNItem" where
  "mkStory i ks = \<lparr> item_id = i, item_deleted = None, item_type = Some Story,
     item_by = Some ''u'', item_time = Some 1, item_text = None, item_dead = None,
     item_parent = None, item_poll = None, item_kids = Some ks,
     item_url = None, item_score = Some 1, item_title = Some ''t'', item_parts = None,
     item_descendants = None \<rparr>"

definition storeOf :: "HNItem list \<Rightarrow> int \<Rightarrow> HNItem option" where
  "storeOf items i = find (\<lambda>it. item_id it = i) items"

definition envOf :: "HNItem list \<Rightarrow> env" where
  "envOf items = \<lparr> net = storeOf items, topStories = Inr (map item_id items),
     parseHost = (\<lambda>_. None), storageWritable = True \<rparr>"

definition service0 :: service where
  "service0 = \<lparr> cache = None, persisted = None, storyRootIdsByStoryId = Map.empty,
     feedCommentSession = None, threadSessionByStoryId = Map.empty, topStoriesRequests = 0 \<rparr>"

definition mkStoryEntity :: "int \<Rightarrow> StoryEntity" where
  "mkStoryEntity i = \<lparr> story_id = i, story_title = ''t'', story_url = None, story_host = None,
     story_by = ''u'', story_score = 1, story_time = 1, story_commentCount = 0 \<rparr>"

definition mkCommentEntity :: "int \<Rightarrow> int \<Rightarrow> CommentEntity" where
  "mkCommentEntity i storyId = \<lparr> comment_id = i, comment_by = ''u'', comment_time = 1,
     comment_textHtml = ''x'', comment_parentId = storyId, comment_storyId = storyId,
     comment_storyTitle = ''t'', comment_depth = 0 \<rparr>"

text \<open>
  The story 100 with the root comments 1 and 2, where 1 has the kid 3; the same store
  with a cross-story session primed for that story; a story with three root comments;
  the comment 5 under the comment 4 under the story 1.
\<close>

definition exampleThread :: env where
  "exampleThread = envOf [mkStory 100 [1, 2], mkComment 1 100 [3], mkComment 2 100 [],
     mkComment 3 1 []]"


definition exampleWideStory :: env where
  "exampleWideStory = envOf [mkStory 100 [1, 2, 3], mkComment 1 100 [], mkComment 2 100 [],
     mkComment 3 100 []]"

definition exampleContext :: env where
  "exampleContext = envOf [mkStory 1 [4], mkComment 4 1 [5], mkComment 5 4 []]"

definition withBatchSize :: "int \<Rightarrow> threadOptions" where
  "withBatchSize n = \<lparr> to_batchSize = Some n, to_reset = None, to_concurrency = None \<rparr>"


text \<open>What a caller sees of a page: the ids of its comments, in order, and \<open>hasMore\<close>.\<close>

definition pageSummary :: "StoryThreadPage option \<Rightarrow> (int list \<times> bool) option" where
  "pageSummary page =
     (case page of None \<Rightarrow> None | Some p \<Rightarrow> Some (map comment_id (page_comments p), page_hasMore p))"

definition pageSummaries ::
  "(StoryThreadPage option list \<times> service) option \<Rightarrow> (int list \<times> bool) option list option" where
  "pageSummaries r = (case r of None \<Rightarrow> None | Some (pages, st) \<Rightarrow> Some (map pageSummary pages))"















text \<open>What a caller sees of a comment context: the selected id, the ids of the parent
  chain, the id of the thread's story and the ids of the thread's comments.\<close>

definition contextSummary ::
  "(CommentContext option \<times> service) option \<Rightarrow> (int \<times> int list \<times> int \<times> int list) option option" where
  "contextSummary r =
     (case r of
        None \<Rightarrow> None
      | Some (None, st) \<Rightarrow> Some None
      | Some (Some c, st) \<Rightarrow>
          Some (Some (ctx_selectedId c, map item_id (ctx_parents c),
            story_id (thread_story (ctx_thread c)),
            map comment_id (thread_comments (ctx_thread c)))))"

section \<open>Theorems: item fetcher\<close>

text \<open>
  The promise cache and the request log stay in step: an id in the cache points at its
  own request in the log, and every request in the log is the one its id is cached
  under.
\<close>

lemma client_inv_distinct: "client_inv c \<Longrightarrow> distinct (requests c)"
  unfolding client_inv_def distinct_conv_nth by (metis option.inject)

lemma distinct_count_list_le1: "distinct xs \<Longrightarrow> count_list xs a \<le> 1"
  by (induction xs) (auto simp: count_list_0_iff)

lemma client_inv_fetchItem: "client_inv c \<Longrightarrow> client_inv (snd (fetchItem i c))"
  unfolding client_inv_def fetchItem_def
  by (auto simp: Let_def nth_append less_Suc_eq split: option.splits)

lemma client_inv_step: "client_inv c \<Longrightarrow> client_inv (step c e)"
  by (cases e) (auto simp: client_inv_fetchItem, simp add: client_inv_def)

lemma client_inv_run: "client_inv c \<Longrightarrow> client_inv (run c evs)"
  unfolding run_def by (induction evs arbitrary: c) (auto simp: client_inv_step)

lemma client_inv_client0: "client_inv client0"
  by (simp add: client_inv_def client0_def)

lemma step_cache_mono:
  "itemPromiseCache c i = Some h \<Longrightarrow> itemPromiseCache (step c e) i = Some h"
  by (cases e) (auto simp: fetchItem_def Let_def split: option.splits)

lemma run_cache_mono:
  "itemPromiseCache c i = Some h \<Longrightarrow> itemPromiseCache (run c evs) i = Some h"
  unfolding run_def by (induction evs arbitrary: c) (auto simp: step_cache_mono)

lemma step_settled_mono: "settled c h = Some r \<Longrightarrow> settled (step c e) h = Some r"
  by (cases e) (auto simp: fetchItem_def Let_def split: option.splits)

lemma run_settled_mono: "settled c h = Some r \<Longrightarrow> settled (run c evs) h = Some r"
  unfolding run_def by (induction evs arbitrary: c) (auto simp: step_settled_mono)

lemma fetchItem_cached: "fetchItem i c = (h, c1) \<Longrightarrow> itemPromiseCache c1 i = Some h"
  by (auto simp: fetchItem_def Let_def split: option.splits)

lemma fetchItem_hit: "itemPromiseCache c i = Some h \<Longrightarrow> fetchItem i c = (h, c)"
  by (simp add: fetchItem_def)

text \<open>
  Claim C2. Whatever calls and network answers came before, the log of network requests
  holds each id at most once. A call of \<^verbatim>\<open>fetchItem\<close> for an id returns a promise
  \<open>h\<close>; after any further calls and answers, a call for the same id returns the same
  promise and leaves the state as it is (no new request), the promise is that of the one
  request for the id, and a value the promise has resolved to (\<^verbatim>\<open>null\<close> included) is
  still its value.
\<close>

theorem fetchItem_single_flight:
  "count_list (requests (run client0 evs)) i \<le> 1
   \<and> (fetchItem i (run client0 evs1) = (h, c1) \<longrightarrow>
        fetchItem i (run c1 evs2) = (h, run c1 evs2)
        \<and> h < length (requests (run c1 evs2)) \<and> requests (run c1 evs2) ! h = i
        \<and> (settled c1 h = Some r \<longrightarrow> settled (run c1 evs2) h = Some r))"
proof (intro conjI impI)
  show "count_list (requests (run client0 evs)) i \<le> 1"
    using client_inv_distinct [OF client_inv_run [OF client_inv_client0]]
    by (rule distinct_count_list_le1)
next
  assume f: "fetchItem i (run client0 evs1) = (h, c1)"
  have cached: "itemPromiseCache (run c1 evs2) i = Some h"
    using fetchItem_cached [OF f] by (rule run_cache_mono)
  show "fetchItem i (run c1 evs2) = (h, run c1 evs2)"
    using cached by (rule fetchItem_hit)
  have "client_inv c1"
    using client_inv_fetchItem [OF client_inv_run [OF client_inv_client0], of i evs1] f by simp
  then have inv: "client_inv (run c1 evs2)" by (rule client_inv_run)
  show "h < length (requests (run c1 evs2))" using inv cached by (simp add: client_inv_def)
  show "requests (run c1 evs2) ! h = i" using inv cached by (simp add: client_inv_def)
next
  assume "settled c1 h = Some r"
  then show "settled (run c1 evs2) h = Some r" by (rule run_settled_mono)
qed

theorem fetchItem_single_flight_witness:
  "count_list (requests (run client0 [Call 5, Call 7, Call 5])) 5 \<le> 1
   \<and> fetchItem 5 (run client0 [Call 7]) = (1, run client0 [Call 7, Call 5])
   \<and> fetchItem 5 (run (run client0 [Call 7, Call 5]) [Respond 1 None, Call 5, Call 9])
        = (1, run (run client0 [Call 7, Call 5]) [Respond 1 None, Call 5, Call 9])
   \<and> requests (run (run client0 [Call 7, Call 5]) [Respond 1 None, Call 5, Call 9]) = [7, 5, 9]
   \<and> settled (run (run client0 [Call 7, Call 5]) [Respond 1 None, Call 5, Call 9]) 1 = Some None"
proof -
  have f: "fetchItem 5 (run client0 [Call 7]) = (1, run client0 [Call 7, Call 5])"
    by (simp add: run_def fetchItem_def client0_def)
  have r: "requests (run (run client0 [Call 7, Call 5]) [Respond 1 None, Call 5, Call 9]) = [7, 5, 9]"
    by (simp add: run_def fetchItem_def client0_def)
  have s: "settled (run (run client0 [Call 7, Call 5]) [Respond 1 None, Call 5, Call 9]) 1 = Some None"
    by (simp add: run_def fetchItem_def client0_def)
  from fetchItem_single_flight [of "[Call 5, Call 7, Call 5]" 5 "[Call 7]" 1
      "run client0 [Call 7, Call 5]" "[Respond 1 None, Call 5, Call 9]" None] f r s
  show ?thesis by simp
qed

section \<open>Theorems: snapshot cache\<close>

text \<open>
  The batch fetcher returns whenever its chunk size is at least one, with the items of
  the ids that resolved, in the order of the ids. The service calls it with the chunk
  sizes 10 and 4.
\<close>

lemma map_filter_take_drop:
  "List.map_filter f (take n xs) @ List.map_filter f (drop n xs) = List.map_filter f xs"
proof -
  have "List.map_filter f (take n xs @ drop n xs) = List.map_filter f xs" by simp
  then show ?thesis unfolding List.map_filter_def by (simp del: append_take_drop_id)
qed

lemma fetchItemsLoop_returns:
  "1 \<le> c \<Longrightarrow> fetchItemsLoop fetch c queue out = Some (out @ List.map_filter fetch queue)"
proof (induction queue arbitrary: out rule: length_induct)
  case (1 queue)
  show ?case
  proof (cases "queue = []")
    case True
    then show ?thesis by (subst fetchItemsLoop.simps) (simp add: List.map_filter_def)
  next
    case False
    with 1(2) have "length (spliceRest c queue) < length queue"
      by (simp add: spliceRest_def)
    with 1 have "fetchItemsLoop fetch c (spliceRest c queue)
               (out @ List.map_filter fetch (spliceHead c queue))
             = Some ((out @ List.map_filter fetch (spliceHead c queue))
                 @ List.map_filter fetch (spliceRest c queue))"
      by blast
    with False show ?thesis
      by (subst fetchItemsLoop.simps)
         (simp add: spliceHead_def spliceRest_def map_filter_take_drop)
  qed
qed

lemma fetchItemsConcurrently_returns:
  "1 \<le> c \<Longrightarrow> fetchItemsConcurrently e ids c = Some (List.map_filter (net e) ids)"
  by (simp add: fetchItemsConcurrently_def fetchItemsLoop_returns)

lemma fetchTopStories_returns:
  "fetchTopStories e limit st =
     (case topStories e of
        Inl err \<Rightarrow> Some (Inl err, st\<lparr> topStoriesRequests := topStoriesRequests st + 1 \<rparr>)
      | Inr payload \<Rightarrow>
          Some (Inr (storiesOf e (slice0 payload limit)),
            st\<lparr> topStoriesRequests := topStoriesRequests st + 1,
                storyRootIdsByStoryId := setStoryRoots (storiesOf e (slice0 payload limit)) Map.empty \<rparr>))"
  by (simp add: fetchTopStories_def fetchItemsConcurrently_returns storiesOf_def Let_def
      split: sum.splits)

lemma fetchTopStories_frame:
  assumes "fetchTopStories e limit st = Some (r, st1)"
  shows "cache st1 = cache st" and "persisted st1 = persisted st"
    and "topStoriesRequests st1 = topStoriesRequests st + 1"
  using assms by (auto simp: fetchTopStories_returns split: sum.splits)

lemma fetchTopStories_some: "\<exists>r st1. fetchTopStories e limit st = Some (r, st1)"
  by (simp add: fetchTopStories_returns split: sum.splits)

lemma getTopStoriesSnapshot_hit:
  assumes "\<not> (case so_forceRefresh options of Some b \<Rightarrow> b | None \<Rightarrow> False)"
    and "shouldUseCache now (case so_cacheMs options of Some n \<Rightarrow> n | None \<Rightarrow> 120000) st"
  shows "getTopStoriesSnapshot e now later options st = Some (Inr (the (cache st)), st)"
  using assms by (simp add: getTopStoriesSnapshot_def)

lemma getTopStoriesSnapshot_miss:
  assumes "(case so_forceRefresh options of Some b \<Rightarrow> b | None \<Rightarrow> False)
     \<or> \<not> shouldUseCache now (case so_cacheMs options of Some n \<Rightarrow> n | None \<Rightarrow> 120000) st"
  shows "\<exists>res st'. getTopStoriesSnapshot e now later options st = Some (res, st')
            \<and> topStoriesRequests st' = topStoriesRequests st + 1"
proof -
  obtain r st1 where f: "fetchTopStories e (case so_storyLimit options of Some n \<Rightarrow> n | None \<Rightarrow> 10) st = Some (r, st1)"
    using fetchTopStories_some by blast
  note fr = fetchTopStories_frame [OF f]
  show ?thesis
  proof (cases r)
    case (Inl err)
    with assms f fr show ?thesis by (auto simp: getTopStoriesSnapshot_def)
  next
    case (Inr sw)
    with assms f fr show ?thesis
      by (auto simp: getTopStoriesSnapshot_def Let_def persistSnapshot_def)
  qed
qed


lemma storiesOf_fst:
  "map fst (storiesOf e ids)
     = List.map_filter (toStoryEntity (parseHost e)) (List.map_filter (net e) ids)"
  by (simp add: storiesOf_def List.map_filter_def comp_def option.map_sel
      cong: filter_cong map_cong)

text \<open>
  Claim C3. A call returns. When \<open>forceRefresh\<close> is off and the cache holds a snapshot
  with a story whose age \<open>now - cachedAt\<close> is below \<open>maxAge\<close>, the call returns that
  snapshot and leaves the whole state as it is (no request for the top-id list); in every
  other case it issues one request for the top-id list. So for a snapshot cached at
  time \<open>T\<close>, a read at \<open>T + maxAge - 1\<close> is served from the cache and a read at
  \<open>T + maxAge + 1\<close> refetches.
\<close>

theorem snapshot_cache_hit_policy:
  assumes "maxAge = (case so_cacheMs options of Some n \<Rightarrow> n | None \<Rightarrow> 120000)"
    and "force = (case so_forceRefresh options of Some b \<Rightarrow> b | None \<Rightarrow> False)"
  shows
    "(\<exists>res st'. getTopStoriesSnapshot e now later options st = Some (res, st') \<and>
        (if \<not> force \<and> (\<exists>c. cache st = Some c \<and> snap_stories c \<noteq> []
                              \<and> now - snap_cachedAt c < maxAge)
         then res = Inr (the (cache st)) \<and> st' = st
         else topStoriesRequests st' = topStoriesRequests st + 1))
     \<and> (\<forall>c. \<not> force \<and> cache st = Some c \<and> snap_stories c \<noteq> [] \<longrightarrow>
          getTopStoriesSnapshot e (snap_cachedAt c + maxAge - 1) later options st = Some (Inr c, st)
          \<and> (\<exists>res st'. getTopStoriesSnapshot e (snap_cachedAt c + maxAge + 1) later options st
                          = Some (res, st')
                \<and> topStoriesRequests st' = topStoriesRequests st + 1))"
proof -
  have hit_iff: "shouldUseCache t maxAge st
      \<longleftrightarrow> (\<exists>c. cache st = Some c \<and> snap_stories c \<noteq> [] \<and> t - snap_cachedAt c < maxAge)" for t
    by (simp add: shouldUseCache_def split: option.splits)
  have first: "\<exists>res st'. getTopStoriesSnapshot e now later options st = Some (res, st') \<and>
        (if \<not> force \<and> (\<exists>c. cache st = Some c \<and> snap_stories c \<noteq> []
                              \<and> now - snap_cachedAt c < maxAge)
         then res = Inr (the (cache st)) \<and> st' = st
         else topStoriesRequests st' = topStoriesRequests st + 1)"
  proof (cases "\<not> force \<and> shouldUseCache now maxAge st")
    case True
    then show ?thesis
      using getTopStoriesSnapshot_hit [of options now st e later] assms hit_iff [of now]
      by simp
  next
    case False
    then have "force \<or> \<not> shouldUseCache now maxAge st" by blast
    then show ?thesis
      using getTopStoriesSnapshot_miss [of options now st e later] assms hit_iff [of now]
      by auto
  qed
  have second: "getTopStoriesSnapshot e (snap_cachedAt c + maxAge - 1) later options st = Some (Inr c, st)
          \<and> (\<exists>res st'. getTopStoriesSnapshot e (snap_cachedAt c + maxAge + 1) later options st
                          = Some (res, st')
                \<and> topStoriesRequests st' = topStoriesRequests st + 1)"
    if c: "\<not> force" "cache st = Some c" "snap_stories c \<noteq> []" for c
  proof
    have "shouldUseCache (snap_cachedAt c + maxAge - 1) maxAge st"
      using c by (simp add: hit_iff)
    then show "getTopStoriesSnapshot e (snap_cachedAt c + maxAge - 1) later options st = Some (Inr c, st)"
      using getTopStoriesSnapshot_hit [of options "snap_cachedAt c + maxAge - 1" st e later] assms c
      by simp
    have "\<not> shouldUseCache (snap_cachedAt c + maxAge + 1) maxAge st"
      using c by (simp add: hit_iff)
    then show "\<exists>res st'. getTopStoriesSnapshot e (snap_cachedAt c + maxAge + 1) later options st
                          = Some (res, st')
                \<and> topStoriesRequests st' = topStoriesRequests st + 1"
      using getTopStoriesSnapshot_miss [of options "snap_cachedAt c + maxAge + 1" st e later] assms
      by simp
  qed
  from first second show ?thesis by blast
qed

theorem snapshot_cache_hit_policy_witness:
  "getTopStoriesSnapshot (envOf [mkStory 7 []]) 1499 2000
       \<lparr> so_storyLimit = None, so_cacheMs = Some 500, so_forceRefresh = None \<rparr>
       (service0\<lparr> cache := Some \<lparr> snap_stories = [mkStoryEntity 7], snap_comments = [],
                                   snap_cachedAt = 1000 \<rparr> \<rparr>)
     = Some (Inr \<lparr> snap_stories = [mkStoryEntity 7], snap_comments = [], snap_cachedAt = 1000 \<rparr>,
             service0\<lparr> cache := Some \<lparr> snap_stories = [mkStoryEntity 7], snap_comments = [],
                                   snap_cachedAt = 1000 \<rparr> \<rparr>)
   \<and> (\<exists>res st'. getTopStoriesSnapshot (envOf [mkStory 7 []]) 1501 2000
         \<lparr> so_storyLimit = None, so_cacheMs = Some 500, so_forceRefresh = None \<rparr>
         (service0\<lparr> cache := Some \<lparr> snap_stories = [mkStoryEntity 7], snap_comments = [],
                                   snap_cachedAt = 1000 \<rparr> \<rparr>) = Some (res, st')
        \<and> topStoriesRequests st' = 1)"
  using snapshot_cache_hit_policy [of 500
      "\<lparr> so_storyLimit = None, so_cacheMs = Some 500, so_forceRefresh = None \<rparr>" False
      "envOf [mkStory 7 []]" 1499 2000
      "service0\<lparr> cache := Some \<lparr> snap_stories = [mkStoryEntity 7], snap_comments = [],
                                   snap_cachedAt = 1000 \<rparr> \<rparr>"]
  by (simp add: service0_def)

text \<open>
  Claim C9. On a refresh (\<open>forceRefresh\<close>, or no usable cached snapshot), when the
  top-id call succeeds and none of the items fetched for the first \<open>storyLimit\<close> ids
  maps to a story, the call throws the empty-payload error, and the in-memory snapshot
  and the persisted snapshot are what they were before the call.
\<close>

theorem empty_top_stories_throws:
  assumes "(case so_forceRefresh options of Some b \<Rightarrow> b | None \<Rightarrow> False)
       \<or> \<not> shouldUseCache now (case so_cacheMs options of Some n \<Rightarrow> n | None \<Rightarrow> 120000) st"
    and "topStories e = Inr payload"
    and "List.map_filter (toStoryEntity (parseHost e))
           (List.map_filter (net e)
              (slice0 payload (case so_storyLimit options of Some n \<Rightarrow> n | None \<Rightarrow> 10))) = []"
  shows "\<exists>st'. getTopStoriesSnapshot e now later options st = Some (Inl EmptyTopStories, st')
           \<and> cache st' = cache st \<and> persisted st' = persisted st"
proof -
  have "map fst (storiesOf e (slice0 payload (case so_storyLimit options of Some n \<Rightarrow> n | None \<Rightarrow> 10))) = []"
    using assms(3) by (simp only: storiesOf_fst)
  then have empty: "storiesOf e (slice0 payload (case so_storyLimit options of Some n \<Rightarrow> n | None \<Rightarrow> 10)) = []"
    by simp
  show ?thesis
    using assms(1,2) empty
    by (auto simp: getTopStoriesSnapshot_def fetchTopStories_returns)
qed

theorem empty_top_stories_throws_witness:
  "\<exists>st'. getTopStoriesSnapshot (envOf [mkComment 3 1 []]) 5000 5001
       \<lparr> so_storyLimit = None, so_cacheMs = None, so_forceRefresh = Some True \<rparr>
       (service0\<lparr> cache := Some \<lparr> snap_stories = [mkStoryEntity 7], snap_comments = [],
                                   snap_cachedAt = 1000 \<rparr>,
                  persisted := Some \<lparr> snap_stories = [mkStoryEntity 7], snap_comments = [],
                                   snap_cachedAt = 1000 \<rparr> \<rparr>)
       = Some (Inl EmptyTopStories, st')
     \<and> cache st' = Some \<lparr> snap_stories = [mkStoryEntity 7], snap_comments = [],
                                   snap_cachedAt = 1000 \<rparr>
     \<and> persisted st' = Some \<lparr> snap_stories = [mkStoryEntity 7], snap_comments = [],
                                   snap_cachedAt = 1000 \<rparr>"
  using empty_top_stories_throws [of
      "\<lparr> so_storyLimit = None, so_cacheMs = None, so_forceRefresh = Some True \<rparr>"
      5000
      "service0\<lparr> cache := Some \<lparr> snap_stories = [mkStoryEntity 7], snap_comments = [],
                                   snap_cachedAt = 1000 \<rparr>,
                  persisted := Some \<lparr> snap_stories = [mkStoryEntity 7], snap_comments = [],
                                   snap_cachedAt = 1000 \<rparr> \<rparr>"
      "envOf [mkComment 3 1 []]" "[3]" 5001]
  by (simp add: service0_def envOf_def storeOf_def mkComment_def slice0_def List.map_filter_def
      toStoryEntity_def)

section \<open>Theorems: exhausted sessions\<close>







subsection \<open>Overlapping calls on an exhausted session\<close>














section \<open>Theorems: dedup and depth in the traversal sessions\<close>

subsection \<open>Per-story session\<close>

lemma pushKids_frame [simp]:
  "ts_comments (pushKids d ks s) = ts_comments s" "ts_story (pushKids d ks s) = ts_story s"
  by (induction ks arbitrary: s) auto

lemma pushKids_depth_mono: "ts_depthById s \<subseteq>\<^sub>m ts_depthById (pushKids d ks s)"
proof (induction ks arbitrary: s)
  case Nil
  show ?case by simp
next
  case (Cons k ks)
  show ?case
  proof (cases "ts_depthById s k")
    case None
    let ?s1 = "s\<lparr> ts_depthById := (ts_depthById s)(k \<mapsto> d + 1), ts_queue := ts_queue s @ [k] \<rparr>"
    have "ts_depthById s \<subseteq>\<^sub>m ts_depthById ?s1" using None by (auto simp: map_le_def)
    also have "\<dots> \<subseteq>\<^sub>m ts_depthById (pushKids d ks ?s1)" by (rule Cons.IH)
    finally show ?thesis using None by simp
  next
    case (Some a)
    then show ?thesis using Cons.IH [of s] by simp
  qed
qed



lemma threadItems_Some:
  "threadItems b (Some item # rest) (s, a) =
     (let depth = (case ts_depthById s (item_id item) of Some d \<Rightarrow> d | None \<Rightarrow> 0);
          m = toCommentEntity item (ts_story s) depth;
          s1 = (case m of Some mapped \<Rightarrow> s\<lparr> ts_comments := ts_comments s @ [mapped] \<rparr> | None \<Rightarrow> s);
          a1 = (case m of Some mapped \<Rightarrow> a + 1 | None \<Rightarrow> a);
          s2 = pushKids depth (kidsOrEmpty item) s1
      in if b \<le> a1 then (s2, a1) else threadItems b rest (s2, a1))"
  by (simp add: Let_def split: option.splits)


lemma threadItems_frame:
  "threadItems b items (s, a) = (s', a') \<Longrightarrow>
     ts_depthById s \<subseteq>\<^sub>m ts_depthById s' \<and> ts_story s' = ts_story s
     \<and> (\<exists>new. ts_comments s' = ts_comments s @ new)"
proof (induction items arbitrary: s a)
  case Nil
  then show ?case by simp
next
  case (Cons x items)
  show ?case
  proof (cases x)
    case None
    with Cons show ?thesis by simp
  next
    case (Some item)
    define depth where "depth = (case ts_depthById s (item_id item) of Some d \<Rightarrow> d | None \<Rightarrow> 0)"
    define m where "m = toCommentEntity item (ts_story s) depth"
    define s1 where "s1 = (case m of Some mapped \<Rightarrow> s\<lparr> ts_comments := ts_comments s @ [mapped] \<rparr> | None \<Rightarrow> s)"
    define a1 where "a1 = (case m of Some mapped \<Rightarrow> a + 1 | None \<Rightarrow> a)"
    define s2 where "s2 = pushKids depth (kidsOrEmpty item) s1"
    have unfold: "threadItems b (x # items) (s, a)
        = (if b \<le> a1 then (s2, a1) else threadItems b items (s2, a1))"
      unfolding Some threadItems_Some depth_def m_def s1_def a1_def s2_def Let_def ..
    have s1: "ts_depthById s1 = ts_depthById s" "ts_story s1 = ts_story s"
      "\<exists>new. ts_comments s1 = ts_comments s @ new"
      by (auto simp: s1_def split: option.splits)
    have s2: "ts_depthById s \<subseteq>\<^sub>m ts_depthById s2" "ts_story s2 = ts_story s"
      "\<exists>new. ts_comments s2 = ts_comments s @ new"
      using s1 pushKids_depth_mono [of s1 depth "kidsOrEmpty item"] by (auto simp: s2_def)
    show ?thesis
    proof (cases "b \<le> a1")
      case True
      with Cons.prems unfold have "s' = s2" by simp
      with s2 show ?thesis by simp
    next
      case False
      with Cons.prems unfold have "threadItems b items (s2, a1) = (s', a')" by simp
      from Cons.IH [OF this] have
        i1: "ts_depthById s2 \<subseteq>\<^sub>m ts_depthById s'" and i2: "ts_story s' = ts_story s2"
        and i3: "\<exists>new. ts_comments s' = ts_comments s2 @ new"
        by blast+
      have "ts_depthById s \<subseteq>\<^sub>m ts_depthById s'" using map_le_trans [OF s2(1) i1] .
      moreover have "ts_story s' = ts_story s" using i2 s2(2) by simp
      moreover have "\<exists>new. ts_comments s' = ts_comments s @ new" using i3 s2(3) by auto
      ultimately show ?thesis by blast
    qed
  qed
qed




lemmas threadLoop_induct = threadLoop.raw_induct [rotated 1, consumes 1, case_names step]

lemma threadLoop_frame:
  assumes "threadLoop fetch b c sa = Some y"
  shows "ts_depthById (fst sa) \<subseteq>\<^sub>m ts_depthById (fst y) \<and> ts_story (fst y) = ts_story (fst sa)
     \<and> (\<exists>new. ts_comments (fst y) = ts_comments (fst sa) @ new)"
  using assms
proof (induct rule: threadLoop_induct)
  case (step loop fetch b c sa y)
  note 1 = step
  show ?case
  proof (cases "ts_queue (fst sa) \<noteq> [] \<and> snd sa < b")
    case False
    with 1(2) show ?thesis by auto
  next
    case True
    define s0 where "s0 = (fst sa)\<lparr> ts_queue := spliceRest c (ts_queue (fst sa)) \<rparr>"
    define r where "r = threadItems b (map fetch (spliceHead c (ts_queue (fst sa)))) (s0, snd sa)"
    from True 1(2) have loop: "loop fetch b c r = Some y"
      by (simp add: Let_def r_def s0_def)
    have "threadItems b (map fetch (spliceHead c (ts_queue (fst sa)))) (s0, snd sa) = (fst r, snd r)"
      by (simp add: r_def)
    from threadItems_frame [OF this] have
      a: "ts_depthById s0 \<subseteq>\<^sub>m ts_depthById (fst r)" and b: "ts_story (fst r) = ts_story s0"
      and c: "\<exists>new. ts_comments (fst r) = ts_comments s0 @ new"
      by blast+
    from 1(1) [OF loop] have
      a': "ts_depthById (fst r) \<subseteq>\<^sub>m ts_depthById (fst y)" and b': "ts_story (fst y) = ts_story (fst r)"
      and c': "\<exists>new. ts_comments (fst y) = ts_comments (fst r) @ new"
      by blast+
    have "ts_depthById (fst sa) \<subseteq>\<^sub>m ts_depthById (fst y)"
      using map_le_trans [OF a a'] by (simp add: s0_def)
    moreover have "ts_story (fst y) = ts_story (fst sa)" using b b' by (simp add: s0_def)
    moreover have "\<exists>new. ts_comments (fst y) = ts_comments (fst sa) @ new"
      using c c' by (auto simp: s0_def)
    ultimately show ?thesis by blast
  qed
qed




lemma finishPage_session:
  "finishPage storyId st s = (p, st1) \<Longrightarrow>
     threadSessionByStoryId st1 storyId = Some (s\<lparr> ts_hasMore := (ts_queue s \<noteq> []) \<rparr>)
     \<and> p = Some \<lparr> page_story = ts_story s, page_comments = ts_comments s,
                  page_hasMore = (ts_queue s \<noteq> []) \<rparr>"
  by (auto simp: finishPage_def Let_def)





subsection \<open>Cross-story session\<close>


lemma pushFeedKids_frame [simp]:
  "fs_seenCommentIds (pushFeedKids qe ks s) = fs_seenCommentIds s"
  "fs_storyById (pushFeedKids qe ks s) = fs_storyById s"
  by (simp_all add: pushFeedKids_def)






subsection \<open>Depths\<close>











subsection \<open>Recorded depths of the per-story session\<close>






subsection \<open>One depth per id in a forest\<close>




lemma getStoryThreadPage_session:
  assumes "getStoryThreadPage e storyId options st = Some (Some page, st1)"
  shows "\<exists>s. threadSessionByStoryId st1 storyId = Some s"
proof -
  from assms obtain sa :: "StoryThreadSession \<times> int" where
    "finishPage storyId (dropOnReset storyId options st) (fst sa) = (Some page, st1)"
    by (auto simp: getStoryThreadPage_def Let_def split: option.splits)
  from finishPage_session [OF this] show ?thesis by blast
qed





section \<open>Theorems: per-story pagination\<close>

text \<open>
  Claim C1, where the code departs from it. A story has the root comments 1, 2 and 3,
  all valid. The first call with \<open>batchSize = 2\<close> (and the default chunk size 8) takes
  the three ids off the queue as one chunk, emits 1 and 2, and leaves the loop at the
  \<^verbatim>\<open>break\<close>: the page holds 1 and 2 and \<open>hasMore\<close> is false, because the queue is
  empty. Comment 3 is in no page, however often the call is repeated.
\<close>

theorem thread_page_drops_rest_of_batch:
  "pageSummaries (threadCalls exampleWideStory 100
        [withBatchSize 2, withBatchSize 2, withBatchSize 2] service0)
     = Some [Some ([1, 2], False), Some ([1, 2], False), Some ([1, 2], False)]"
  by code_simp

text \<open>
  The example of the specification: the roots 1 and 2, where 1 has the kid 3. Two calls
  with \<open>batchSize = 2\<close> return the comments 1, 2 and then 1, 2, 3, and \<open>hasMore\<close> is
  false after the second call.
\<close>

lemma thread_pages_spec_example:
  "pageSummaries (threadCalls exampleThread 100 [withBatchSize 2, withBatchSize 2] service0)
     = Some [Some ([1, 2], True), Some ([1, 2, 3], False)]"
  by code_simp

text \<open>
  Every page is cumulative: a call on a live session, without \<open>reset\<close>, returns the
  comments the session held before the call followed by the comments the call added,
  and the session then holds exactly the comments of the page.
\<close>

lemma thread_pages_cumulative:
  assumes "getStoryThreadPage e storyId options st = Some (Some page, st1)"
    and "threadSessionByStoryId st storyId = Some s"
    and "\<not> (case to_reset options of Some b \<Rightarrow> b | None \<Rightarrow> False)"
  shows "\<exists>new s1. page_comments page = ts_comments s @ new
           \<and> threadSessionByStoryId st1 storyId = Some s1
           \<and> ts_comments s1 = page_comments page"
proof -
  from assms obtain sa :: "StoryThreadSession \<times> int" where
    loop: "threadLoop (net e) (case to_batchSize options of Some n \<Rightarrow> n | None \<Rightarrow> 20)
             (case to_concurrency options of Some n \<Rightarrow> n | None \<Rightarrow> 8) (s, 0) = Some sa"
    and fin: "finishPage storyId st (fst sa) = (Some page, st1)"
    by (auto simp: getStoryThreadPage_def Let_def dropOnReset_def findSession_def
        split: option.splits)
  from threadLoop_frame [OF loop] finishPage_session [OF fin] show ?thesis by auto
qed

theorem thread_pages_cumulative_witness:
  "\<exists>new s1.
     page_comments (the (fst (the (getStoryThreadPage exampleThread 100 (withBatchSize 2)
         (snd (the (getStoryThreadPage exampleThread 100 (withBatchSize 2) service0)))))))
       = ts_comments (the (threadSessionByStoryId
           (snd (the (getStoryThreadPage exampleThread 100 (withBatchSize 2) service0))) 100)) @ new
     \<and> threadSessionByStoryId
         (snd (the (getStoryThreadPage exampleThread 100 (withBatchSize 2)
         (snd (the (getStoryThreadPage exampleThread 100 (withBatchSize 2) service0)))))) 100
       = Some s1
     \<and> map comment_id (ts_comments s1) = [1, 2, 3]"
proof -
  have first: "map_option (\<lambda>r. pageSummary (fst r))
       (getStoryThreadPage exampleThread 100 (withBatchSize 2) service0) = Some (Some ([1, 2], True))"
    by code_simp
  then obtain pg stA where
    g1: "getStoryThreadPage exampleThread 100 (withBatchSize 2) service0 = Some (Some pg, stA)"
    by (auto simp: pageSummary_def split: option.splits)
  from getStoryThreadPage_session [OF g1] obtain sA where
    sA: "threadSessionByStoryId stA 100 = Some sA"
    by blast
  have "pageSummaries (threadCalls exampleThread 100 [withBatchSize 2, withBatchSize 2] service0)
     = Some [Some ([1, 2], True), Some ([1, 2, 3], False)]"
    by code_simp
  with g1 obtain pg' st2 where
    g2: "getStoryThreadPage exampleThread 100 (withBatchSize 2) stA = Some (Some pg', st2)"
    and ids: "map comment_id (page_comments pg') = [1, 2, 3]"
    by (auto simp: pageSummaries_def pageSummary_def split: option.splits)
  have nr: "\<not> (case to_reset (withBatchSize 2) of Some b \<Rightarrow> b | None \<Rightarrow> False)"
    by (simp add: withBatchSize_def)
  from thread_pages_cumulative [OF g2 sA nr] obtain new s1 where
    c: "page_comments pg' = ts_comments sA @ new" "threadSessionByStoryId st2 100 = Some s1"
       "ts_comments s1 = page_comments pg'"
    by blast
  from c(3) ids have "map comment_id (ts_comments s1) = [1, 2, 3]" by simp
  with c(1,2) have "\<exists>new s1. page_comments pg' = ts_comments sA @ new
     \<and> threadSessionByStoryId st2 100 = Some s1
     \<and> map comment_id (ts_comments s1) = [1, 2, 3]"
    by (intro exI conjI)
  moreover have e1: "snd (the (getStoryThreadPage exampleThread 100 (withBatchSize 2) service0)) = stA"
    using g1 by simp
  moreover have e2: "the (fst (the (getStoryThreadPage exampleThread 100 (withBatchSize 2) stA))) = pg'"
    and e3: "snd (the (getStoryThreadPage exampleThread 100 (withBatchSize 2) stA)) = st2"
    using g2 by simp_all
  moreover have e4: "the (threadSessionByStoryId stA 100) = sA" using sA by simp
  ultimately show ?thesis by (simp only:)
qed

section \<open>Theorems: ancestor resolver\<close>

lemma specOwner_Cons:
  "item_type parent \<noteq> Some Story \<Longrightarrow> specOwner (parent # chain) = specOwner chain"
  by (simp add: specOwner_def)

lemma specOwner_append:
  "specOwner (parents @ chain) = (if chain = [] then specOwner parents else specOwner chain)"
  by (simp add: specOwner_def)

lemma walkParents_specChain:
  "guard \<le> 40 \<Longrightarrow>
     walkParents fetch cursor guard parents
       = (specOwner (specChain fetch (40 - guard) cursor),
          parents @ specChain fetch (40 - guard) cursor)"
proof (induction fetch cursor guard parents rule: walkParents.induct)
  case (1 fetch cursor guard parents)
  show ?case
  proof (cases "truthyNum cursor \<and> guard < 40")
    case False
    then have "specChain fetch (40 - guard) cursor = []"
      by (cases "40 - guard") auto
    moreover from False have "walkParents fetch cursor guard parents = (None, parents)"
      by (subst walkParents.simps) auto
    ultimately show ?thesis by (simp add: specOwner_def)
  next
    case True
    then obtain hops where hops: "40 - guard = Suc hops" "40 - (guard + 1) = hops"
      by (cases "40 - guard") auto
    show ?thesis
    proof (cases "fetch (the cursor)")
      case None
      with True hops show ?thesis
        by (subst walkParents.simps) (simp add: specOwner_def)
    next
      case (Some parent)
      show ?thesis
      proof (cases "item_type parent = Some Story")
        case story: True
        with True Some hops show ?thesis
          by (subst walkParents.simps) (simp add: specOwner_def)
      next
        case False
        from True have g: "guard + 1 \<le> 40" by simp
        from "1.IH" [OF True Some False g] True Some False hops show ?thesis
          by (subst walkParents.simps) (simp add: specOwner_Cons)
      qed
    qed
  qed
qed

lemma specChain_length: "length (specChain fetch hops cursor) \<le> hops"
  by (induction hops arbitrary: cursor) (auto split: option.splits)

lemma specChain_first_story:
  "\<forall>p \<in> set (butlast (specChain fetch hops cursor)). item_type p \<noteq> Some Story"
  by (induction hops arbitrary: cursor) (auto split: option.splits)

lemma getCommentContext_spec:
  "getCommentContext e commentId st =
     (case net e commentId of
        None \<Rightarrow> Some (None, st)
      | Some selected \<Rightarrow>
          if item_type selected \<noteq> Some Comment then Some (None, st)
          else if \<not> truthyNum (specOwner (specChain (net e) 40 (item_parent selected)))
          then Some (None, st)
          else
            (case getStoryThread e (the (specOwner (specChain (net e) 40 (item_parent selected))))
                    (Some 220) st of
               None \<Rightarrow> None
             | Some (None, st1) \<Rightarrow> Some (None, st1)
             | Some (Some thread, st1) \<Rightarrow>
                 Some (Some \<lparr> ctx_selectedId = commentId, ctx_thread = thread,
                     ctx_parents = specChain (net e) 40 (item_parent selected) \<rparr>, st1)))"
  by (simp add: getCommentContext_def walkParents_specChain split: option.splits)

text \<open>
  Claim C8. \<^verbatim>\<open>getCommentContext\<close> returns absent for an id whose item is absent or is
  not a comment. Otherwise its parent chain is the chain of the specification with a
  guard of 40 hops: it holds at most 40 items, and none before its last is a story. When
  the chain does not end in a story the result is absent. When it ends in a story with
  a non-zero id, the result is absent if the thread of that story cannot be loaded, and
  otherwise it is the selected id, the thread that \<^verbatim>\<open>getStoryThread\<close> loads for that
  story with a cap of 220 comments, and the chain. For the comment 5 under the comment
  4 under the story 1, the chain is the items 4 and 1 and the thread is that of story 1.
\<close>

theorem comment_context_resolution:
  "(net e commentId = None \<longrightarrow> getCommentContext e commentId st = Some (None, st))
   \<and> (net e commentId = Some selected \<and> item_type selected \<noteq> Some Comment \<longrightarrow>
        getCommentContext e commentId st = Some (None, st))
   \<and> (net e commentId = Some selected \<and> item_type selected = Some Comment
        \<and> specOwner (specChain (net e) 40 (item_parent selected)) = None \<longrightarrow>
        getCommentContext e commentId st = Some (None, st))
   \<and> (net e commentId = Some selected \<and> item_type selected = Some Comment
        \<and> specOwner (specChain (net e) 40 (item_parent selected)) = Some storyId
        \<and> storyId \<noteq> 0 \<longrightarrow>
        getCommentContext e commentId st =
          (case getStoryThread e storyId (Some 220) st of
             None \<Rightarrow> None
           | Some (None, st1) \<Rightarrow> Some (None, st1)
           | Some (Some thread, st1) \<Rightarrow>
               Some (Some \<lparr> ctx_selectedId = commentId, ctx_thread = thread,
                   ctx_parents = specChain (net e) 40 (item_parent selected) \<rparr>, st1)))
   \<and> length (specChain (net e) 40 cursor) \<le> 40
   \<and> (\<forall>p \<in> set (butlast (specChain (net e) 40 cursor)). item_type p \<noteq> Some Story)
   \<and> contextSummary (getCommentContext exampleContext 5 service0) = Some (Some (5, [4, 1], 1, [4, 5]))"
proof (intro conjI impI)
  show "contextSummary (getCommentContext exampleContext 5 service0) = Some (Some (5, [4, 1], 1, [4, 5]))"
    by code_simp
qed (simp_all add: getCommentContext_spec truthyNum_def specChain_length specChain_first_story)

theorem comment_context_resolution_witness:
  "getCommentContext exampleContext 5 service0
     = (case getStoryThread exampleContext 1 (Some 220) service0 of
          None \<Rightarrow> None
        | Some (None, st1) \<Rightarrow> Some (None, st1)
        | Some (Some thread, st1) \<Rightarrow>
            Some (Some \<lparr> ctx_selectedId = 5, ctx_thread = thread,
                ctx_parents = [mkComment 4 1 [5], mkStory 1 [4]] \<rparr>, st1))
   \<and> getCommentContext exampleContext 1 service0 = Some (None, service0)
   \<and> getCommentContext exampleContext 9 service0 = Some (None, service0)
   \<and> contextSummary (getCommentContext exampleContext 5 service0) = Some (Some (5, [4, 1], 1, [4, 5]))"
proof -
  have chain: "specChain (net exampleContext) 40 (Some 4) = [mkComment 4 1 [5], mkStory 1 [4]]"
    by code_simp
  have sel5: "net exampleContext 5 = Some (mkComment 5 4 [])" by code_simp
  have sel1: "net exampleContext 1 = Some (mkStory 1 [4])" by code_simp
  have sel9: "net exampleContext 9 = None" by code_simp
  have p5: "item_parent (mkComment 5 4 []) = Some 4" "item_type (mkComment 5 4 []) = Some Comment"
    by (simp_all add: mkComment_def)
  have t1: "item_type (mkStory 1 [4]) \<noteq> Some Comment" by (simp add: mkStory_def)
  have owner: "specOwner [mkComment 4 1 [5], mkStory 1 [4]] = Some 1"
    by (simp add: specOwner_def mkStory_def)
  from comment_context_resolution [of exampleContext 5 service0 "mkComment 5 4 []" 1 "Some 4"]
    comment_context_resolution [of exampleContext 1 service0 "mkStory 1 [4]" 1 "Some 4"]
    comment_context_resolution [of exampleContext 9 service0 "mkStory 1 [4]" 1 "Some 4"]
    chain sel5 sel1 sel9 p5 t1 owner
  show ?thesis
    by (simp cong: option.case_cong prod.case_cong)
qed

section \<open>Theorems: mixer\<close>

subsection \<open>Evaluating the generator with integers\<close>

text \<open>
  The index that \<^verbatim>\<open>shuffle\<close> draws and the comparison that \<^verbatim>\<open>mixFeed\<close> makes are
  the same when computed on integers; the closed theorems below evaluate them so.
\<close>

lemma randomNext_int:
  "randomNext state =
     ((real_of_int (jsRem (state * 16807) 2147483647) - 1) / 2147483646,
      jsRem (state * 16807) 2147483647)"
  by (simp add: randomNext_def Let_def)

lemma draw_floor:
  "\<lfloor>(real_of_int s - 1) / 2147483646 * (real_of_int i + 1)\<rfloor> = ((s - 1) * (i + 1)) div 2147483646"
proof -
  have "(real_of_int s - 1) / 2147483646 * (real_of_int i + 1)
      = real_of_int ((s - 1) * (i + 1)) / real_of_int 2147483646"
    by simp
  then show ?thesis by (simp only: floor_divide_of_int_eq)
qed

lemma shuffleLoop_Suc_int:
  "shuffleLoop (Suc k) (arr, state) =
     (let i = int (Suc k);
          state' = jsRem (state * 16807) 2147483647;
          j = ((state' - 1) * (i + 1)) div 2147483646;
          vj = arrGet arr j;
          vi = arrGet arr i
      in shuffleLoop k (arrSet (arrSet arr i vj) j vi, state'))"
  by (simp only: shuffleLoop.simps Let_def randomNext_int split_conv draw_floor)

lemmas shuffleLoop_code [code] = shuffleLoop.simps(1) shuffleLoop_Suc_int

lemma draw_less:
  "(real_of_int s - 1) / 2147483646 < ratio \<longleftrightarrow> real_of_int (s - 1) < ratio * 2147483646"
  by (simp add: field_simps)

lemma mixLoop_int [code]:
  "mixLoop storyRatio storyPool commentPool state out =
     (if storyPool = [] \<and> commentPool = [] then Inr out
      else
        (let state' = (if storyPool \<noteq> [] then jsRem (state * 16807) 2147483647 else state);
             pickStory =
               (if storyPool \<noteq> []
                then real_of_int (state' - 1) < storyRatio * 2147483646 \<or> commentPool = []
                else commentPool = [])
         in if pickStory \<and> storyPool \<noteq> [] then
              (case hd storyPool of
                 None \<Rightarrow> Inl TypeError
               | Some story \<Rightarrow>
                   mixLoop storyRatio (tl storyPool) commentPool state' (out @ [storyEntryOf story]))
            else if commentPool \<noteq> [] then
              (case hd commentPool of
                 None \<Rightarrow> Inl TypeError
               | Some comment \<Rightarrow>
                   mixLoop storyRatio storyPool (tl commentPool) state'
                     (out @ [commentEntryOf comment]))
            else mixLoop storyRatio storyPool commentPool state' out))"
proof (cases "storyPool = []")
  case True
  then show ?thesis
    by (subst mixLoop.simps)
       (simp only: Let_def split_conv if_True if_False not_True_eq_False simp_thms)
next
  case False
  have less: "(real_of_int (jsRem (state * 16807) 2147483647) - 1) / 2147483646 < storyRatio
      \<longleftrightarrow> real_of_int (jsRem (state * 16807) 2147483647 - 1) < storyRatio * 2147483646"
    by (rule draw_less)
  from False show ?thesis
    by (subst mixLoop.simps)
       (simp only: Let_def split_conv randomNext_int less if_True if_False not_False_eq_True
          simp_thms)
qed

subsection \<open>Determinism\<close>



subsection \<open>Stories first when the ratio is 1\<close>

lemma jsRem_bounds: "0 < b \<Longrightarrow> - b < jsRem a b \<and> jsRem a b < b"
proof -
  assume b: "0 < b"
  then have m: "0 \<le> \<bar>a\<bar> mod \<bar>b\<bar>" "\<bar>a\<bar> mod \<bar>b\<bar> < b" by simp_all
  show ?thesis
  proof (cases "a < 0")
    case True
    with m show ?thesis by (simp add: jsRem_def)
  next
    case False
    with m show ?thesis by (cases "a = 0") (simp_all add: jsRem_def)
  qed
qed

lemma randomNext_less_1: "fst (randomNext state) < 1"
  using jsRem_bounds [of 2147483647 "state * 16807"] by (simp add: randomNext_int)




lemma draw_index_le:
  "\<lfloor>fst (randomNext state) * (real_of_int i + 1)\<rfloor> \<le> i" if "0 \<le> i"
proof -
  from that have "fst (randomNext state) * (real_of_int i + 1) < real_of_int i + 1"
    using randomNext_less_1 [of state] by simp
  then show ?thesis by (simp add: floor_le_iff)
qed





subsection \<open>The seed that breaks the shuffle\<close>

text \<open>
  Claim C10, where the code departs from it. For the seed \<open>-2147483646\<close> the remainder
  is \<open>-2147483646\<close>, and adding 2147483646 gives the state 0, which the generator never
  leaves. Every draw then returns \<open>-1/2147483646\<close>, the index drawn in \<^verbatim>\<open>shuffle\<close> is
  \<open>-1\<close>, and the swap moves an element out of the array and leaves \<^verbatim>\<open>undefined\<close> in
  its place. \<^verbatim>\<open>mixFeed\<close> emits the first story and throws a TypeError at the
  \<^verbatim>\<open>undefined\<close> slot: no feed is returned.
\<close>

theorem mixFeed_zero_state_throws:
  "seeded (- 2147483646) = 0
   \<and> shuffle [mkStoryEntity 1, mkStoryEntity 2] (seeded (- 2147483646))
       = ([Some (mkStoryEntity 1), None], 0)
   \<and> mixFeed [mkStoryEntity 1, mkStoryEntity 2] [] (- 2147483646) None = Inl TypeError"
  by code_simp

section \<open>Theorems: mixer, the seeds that work\<close>

subsection \<open>Seeds that give the generator a positive state\<close>

lemma jsRem_nonneg: "0 \<le> a \<Longrightarrow> jsRem a 2147483647 = a mod 2147483647"
  by (cases "a = 0") (simp_all add: jsRem_def)

lemma next_state_good:
  assumes "goodState state"
  shows "goodState (snd (randomNext state))"
proof -
  let ?m = "2147483647 :: int"
  let ?s = "(state * 16807) mod ?m"
  from assms have st: "1 \<le> state" "state < ?m" by (simp_all add: goodState_def)
  then have nn: "0 \<le> state * 16807" by simp
  have next_eq: "snd (randomNext state) = ?s"
    using jsRem_nonneg [OF nn] by (simp add: randomNext_int)
  have "?s \<noteq> 0"
  proof
    assume z: "?s = 0"
    have "(state * 16807 * 1407677000) mod ?m = (?s * 1407677000) mod ?m"
      by (simp add: mod_mult_left_eq)
    with z have a: "(state * 16807 * 1407677000) mod ?m = 0" by simp
    have "(state * (16807 * 1407677000)) mod ?m = (state * ((16807 * 1407677000) mod ?m)) mod ?m"
      by (simp only: mod_mult_right_eq)
    also have "\<dots> = state mod ?m" by simp
    also have "\<dots> = state" using st by simp
    finally have "(state * 16807 * 1407677000) mod ?m = state" by (simp add: mult.assoc)
    with a st show False by simp
  qed
  moreover have "0 \<le> ?s" "?s < ?m" by simp_all
  ultimately have "1 \<le> ?s \<and> ?s \<le> 2147483646" by linarith
  then show ?thesis by (simp only: next_eq goodState_def)
qed

lemma seeded_good: "seeded seed \<noteq> 0 \<Longrightarrow> goodState (seeded seed)"
  using jsRem_bounds [of 2147483647 seed]
  by (auto simp: seeded_def goodState_def Let_def split: if_splits)

lemma seeded_nonneg_seed: "0 \<le> seed \<Longrightarrow> seeded seed \<noteq> 0"
  using jsRem_nonneg [of seed] by (auto simp: seeded_def Let_def)

lemma draw_nonneg:
  assumes "goodState state"
  shows "0 \<le> fst (randomNext state)"
proof -
  from next_state_good [OF assms] have "1 \<le> snd (randomNext state)" by (simp add: goodState_def)
  then show ?thesis by (simp add: randomNext_int)
qed

lemma draw_index_nonneg:
  assumes "goodState state" and "0 \<le> i"
  shows "0 \<le> \<lfloor>fst (randomNext state) * (real_of_int i + 1)\<rfloor>"
  using draw_nonneg [OF assms(1)] assms(2) by simp

lemma shuffleLoop_good:
  "goodState state \<Longrightarrow> k < length xs \<Longrightarrow>
     \<exists>ys state'. shuffleLoop k ((map Some xs, props), state) = ((map Some ys, props), state')
       \<and> mset ys = mset xs \<and> goodState state'"
proof (induction k arbitrary: xs state)
  case 0
  then show ?case by auto
next
  case (Suc k)
  define i where "i = int (Suc k)"
  define j where "j = \<lfloor>fst (randomNext state) * (real_of_int i + 1)\<rfloor>"
  have i: "0 \<le> i" "nat i = Suc k" by (simp_all add: i_def)
  have j0: "0 \<le> j" unfolding j_def using Suc.prems(1) i(1) by (rule draw_index_nonneg)
  have ji: "j \<le> i" unfolding j_def using i(1) by (rule draw_index_le)
  from ji j0 i Suc.prems(2) have jn: "nat j < length xs" by simp
  define xs' where "xs' = xs[Suc k := xs ! nat j, nat j := xs ! Suc k]"
  have swap: "arrSet (arrSet (map Some xs, props) i (arrGet (map Some xs, props) j)) j
        (arrGet (map Some xs, props) i) = (map Some xs', props)"
    using j0 jn i Suc.prems(2) by (simp add: arrGet_def arrSet_def xs'_def map_update)
  have step: "shuffleLoop (Suc k) ((map Some xs, props), state)
      = shuffleLoop k ((map Some xs', props), snd (randomNext state))"
    using swap by (simp add: Let_def split_def i_def j_def)
  have m: "mset xs' = mset xs"
    unfolding xs'_def using jn Suc.prems(2) by (simp add: mset_swap)
  have l: "k < length xs'" using Suc.prems(2) by (simp add: xs'_def)
  from Suc.IH [OF next_state_good [OF Suc.prems(1)] l, of] obtain ys state' where
    "shuffleLoop k ((map Some xs', props), snd (randomNext state)) = ((map Some ys, props), state')"
    "mset ys = mset xs'" "goodState state'"
    by blast
  with step m show ?case by auto
qed

lemma shuffle_good:
  assumes "goodState state"
  shows "\<exists>ys state'. shuffle xs state = (map Some ys, state') \<and> mset ys = mset xs
           \<and> goodState state'"
proof (cases xs)
  case Nil
  with assms show ?thesis by (simp add: shuffle_def)
next
  case (Cons x xs')
  then have "length xs - 1 < length xs" by simp
  from shuffleLoop_good [OF assms this, of "\<lambda>_. None"] show ?thesis
    by (auto simp: shuffle_def)
qed

lemma mixLoop_defined:
  "\<exists>res. mixLoop ratio (map Some ss) (map Some cs) state out = Inr res
     \<and> storiesOfFeed res = storiesOfFeed out @ ss
     \<and> commentsOfFeed res = commentsOfFeed out @ cs
     \<and> length res = length out + length ss + length cs"
proof (induction "length ss + length cs" arbitrary: ss cs state out)
  case 0
  then show ?case by (subst mixLoop.simps) simp
next
  case (Suc n)
  define pick where "pick = (if ss \<noteq> [] then fst (randomNext state) < ratio \<or> cs = [] else cs = [])"
  define state' where "state' = (if ss \<noteq> [] then snd (randomNext state) else state)"
  have draw: "(if map Some ss \<noteq> []
       then (let (r, s) = randomNext state in (r < ratio \<or> map Some cs = [], s))
       else (map Some cs = [], state)) = (pick, state')"
    by (simp add: pick_def state'_def split_def Let_def)
  have sf: "storiesOfFeed (out @ [storyEntryOf s]) = storiesOfFeed out @ [s]"
    "commentsOfFeed (out @ [storyEntryOf s]) = commentsOfFeed out" for s
    by (induction out rule: storiesOfFeed.induct) (simp_all add: storyEntryOf_def)
  have cf: "storiesOfFeed (out @ [commentEntryOf c]) = storiesOfFeed out"
    "commentsOfFeed (out @ [commentEntryOf c]) = commentsOfFeed out @ [c]" for c
    by (induction out rule: storiesOfFeed.induct) (simp_all add: commentEntryOf_def)
  show ?case
  proof (cases "pick \<and> ss \<noteq> []")
    case True
    then obtain s ss' where ss: "ss = s # ss'" by (cases ss) auto
    with Suc.hyps(2) have n: "n = length ss' + length cs" by simp
    from Suc.hyps(1) [OF n, of state' "out @ [storyEntryOf s]"] obtain res where
      "mixLoop ratio (map Some ss') (map Some cs) state' (out @ [storyEntryOf s]) = Inr res"
      "storiesOfFeed res = storiesOfFeed (out @ [storyEntryOf s]) @ ss'"
      "commentsOfFeed res = commentsOfFeed (out @ [storyEntryOf s]) @ cs"
      "length res = length (out @ [storyEntryOf s]) + length ss' + length cs"
      by blast
    moreover have "mixLoop ratio (map Some ss) (map Some cs) state out
        = mixLoop ratio (map Some ss') (map Some cs) state' (out @ [storyEntryOf s])"
      using True draw by (subst mixLoop.simps) (simp add: ss)
    ultimately show ?thesis by (simp add: ss sf)
  next
    case False
    have "cs \<noteq> []"
    proof
      assume "cs = []"
      with Suc.hyps(2) have "ss \<noteq> []" by auto
      with \<open>cs = []\<close> have "pick" by (simp add: pick_def)
      with \<open>ss \<noteq> []\<close> False show False by simp
    qed
    then obtain c cs' where cs: "cs = c # cs'" by (cases cs) auto
    with Suc.hyps(2) have n: "n = length ss + length cs'" by simp
    from Suc.hyps(1) [OF n, of state' "out @ [commentEntryOf c]"] obtain res where
      "mixLoop ratio (map Some ss) (map Some cs') state' (out @ [commentEntryOf c]) = Inr res"
      "storiesOfFeed res = storiesOfFeed (out @ [commentEntryOf c]) @ ss"
      "commentsOfFeed res = commentsOfFeed (out @ [commentEntryOf c]) @ cs'"
      "length res = length (out @ [commentEntryOf c]) + length ss + length cs'"
      by blast
    moreover have "mixLoop ratio (map Some ss) (map Some cs) state out
        = mixLoop ratio (map Some ss) (map Some cs') state' (out @ [commentEntryOf c])"
      using False draw by (subst mixLoop.simps) (auto simp: cs)
    ultimately show ?thesis by (simp add: cs cf)
  qed
qed

text \<open>
  For a seed that gives the generator a state other than 0 (every seed that is not
  negative does), \<^verbatim>\<open>mixFeed\<close> returns a feed, with one entry for each input story and
  each input comment: its stories are the input stories in some order, its comments the
  input comments in some order.
\<close>

theorem mixFeed_interleaves:
  assumes "seeded seed \<noteq> 0"
  shows "\<exists>out. mixFeed stories comments seed storyRatio = Inr out
           \<and> length out = length stories + length comments
           \<and> mset (storiesOfFeed out) = mset stories
           \<and> mset (commentsOfFeed out) = mset comments"
proof -
  from shuffle_good [OF seeded_good [OF assms], of stories] obtain ss state1 where
    s: "shuffle stories (seeded seed) = (map Some ss, state1)" "mset ss = mset stories"
       "goodState state1"
    by blast
  from shuffle_good [OF s(3), of comments] obtain cs state2 where
    c: "shuffle comments state1 = (map Some cs, state2)" "mset cs = mset comments"
    by blast
  from mixLoop_defined [of "case storyRatio of Some r \<Rightarrow> r | None \<Rightarrow> 0.6" ss cs state2 "[]"]
  obtain res where
    r: "mixLoop (case storyRatio of Some r \<Rightarrow> r | None \<Rightarrow> 0.6) (map Some ss) (map Some cs) state2 []
          = Inr res"
       "storiesOfFeed res = ss" "commentsOfFeed res = cs"
       "length res = length ss + length cs"
    by auto
  have "length ss = length stories" "length cs = length comments"
    using s(2) c(2) by (metis size_mset)+
  with r s c show ?thesis by (simp add: mixFeed_def Let_def)
qed

theorem mixFeed_interleaves_witness:
  "seeded 7 \<noteq> 0
   \<and> (\<exists>out. mixFeed [mkStoryEntity 1, mkStoryEntity 2, mkStoryEntity 3]
               [mkCommentEntity 7 1, mkCommentEntity 8 2] 7 None = Inr out
        \<and> length out = 5
        \<and> mset (storiesOfFeed out) = mset [mkStoryEntity 1, mkStoryEntity 2, mkStoryEntity 3]
        \<and> mset (commentsOfFeed out) = mset [mkCommentEntity 7 1, mkCommentEntity 8 2])"
proof -
  have s: "seeded 7 \<noteq> 0" by (simp add: seeded_def jsRem_def)
  from mixFeed_interleaves [OF s, of "[mkStoryEntity 1, mkStoryEntity 2, mkStoryEntity 3]"
      "[mkCommentEntity 7 1, mkCommentEntity 8 2]" None] s
  show ?thesis by (simp add: eval_nat_numeral)
qed

end
